theory Spec2Isabelle
  imports Complex_Main "HOL-Library.Code_Target_Nat"
begin

section \<open>Python strings and the Unicode tables\<close>

text \<open>
  A Python \<^verbatim>\<open>str\<close> is a sequence of Unicode code points, so a character is a natural
  number and a string a list of them. \<open>u\<close> turns an ASCII literal into such a string.
\<close>

type_synonym cp = nat
type_synonym pystr = "cp list"

definition u :: "string \<Rightarrow> pystr" where
  "u s = map of_char s"

text \<open>
  \<^verbatim>\<open>str.lower\<close> and \<^verbatim>\<open>str.isalnum\<close> read the Unicode character database of the
  interpreter. The database is not part of the repository, so the functions below take it
  as a parameter: \<open>str_lower\<close> is \<^verbatim>\<open>s.lower()\<close> on a whole string (the lowering of
  a capital sigma depends on its position), \<open>str_isalnum\<close> is \<^verbatim>\<open>c.isalnum()\<close> on
  one character.
\<close>

record unicode_db =
  str_lower :: "pystr \<Rightarrow> pystr"
  str_isalnum :: "cp \<Rightarrow> bool"

text \<open>
  The whitespace of \<^verbatim>\<open>str.isspace\<close>, \<^verbatim>\<open>str.strip()\<close> and the regular expression
  class \<^verbatim>\<open>\s\<close> is a short fixed list: U+0009..U+000D, U+001C..U+0020, U+0085, U+00A0,
  U+1680, U+2000..U+200A, U+2028, U+2029, U+202F, U+205F and U+3000.
\<close>

definition is_space :: "cp \<Rightarrow> bool" where
  "is_space c \<longleftrightarrow>
     (9 \<le> c \<and> c \<le> 13) \<or> (28 \<le> c \<and> c \<le> 32) \<or> c = 133 \<or> c = 160 \<or> c = 5760 \<or>
     (8192 \<le> c \<and> c \<le> 8202) \<or> c = 8232 \<or> c = 8233 \<or> c = 8239 \<or> c = 8287 \<or> c = 12288"

definition hyphen :: cp where
  "hyphen = 45"

definition dot :: cp where
  "dot = 46"

definition slash :: cp where
  "slash = 47"

text \<open>The class \<^verbatim>\<open>\w\<close> of a \<^verbatim>\<open>str\<close> pattern: alphanumeric, or the underscore.\<close>

definition is_word :: "unicode_db \<Rightarrow> cp \<Rightarrow> bool" where
  "is_word U c \<longleftrightarrow> str_isalnum U c \<or> c = 95"

definition is_az :: "cp \<Rightarrow> bool" where
  "is_az c \<longleftrightarrow> 97 \<le> c \<and> c \<le> 122"

definition is_09 :: "cp \<Rightarrow> bool" where
  "is_09 c \<longleftrightarrow> 48 \<le> c \<and> c \<le> 57"

subsection \<open>The string and regular-expression primitives the scraper uses\<close>

text \<open>\<^verbatim>\<open>s.replace(a, b)\<close> for one-character \<open>a\<close> and \<open>b\<close>.\<close>

definition replace_char :: "cp \<Rightarrow> cp \<Rightarrow> pystr \<Rightarrow> pystr" where
  "replace_char a b s = map (\<lambda>c. if c = a then b else c) s"

text \<open>
  \<^verbatim>\<open>re.sub('[C]+', '-', s)\<close> for a character class \<open>C\<close>: every maximal run of
  characters of the class becomes one hyphen.
\<close>

function re_collapse :: "(cp \<Rightarrow> bool) \<Rightarrow> pystr \<Rightarrow> pystr" where
  "re_collapse C [] = []"
| "re_collapse C (c # cs) =
     (if C c then hyphen # re_collapse C (dropWhile C cs) else c # re_collapse C cs)"
  by pat_completeness auto
termination
  by (relation "measure (\<lambda>(C, s). length s)")
     (auto simp: less_Suc_eq_le length_dropWhile_le)

text \<open>\<^verbatim>\<open>s.strip(chars)\<close>: the characters of the class are dropped at both ends.\<close>

definition strip_chars :: "(cp \<Rightarrow> bool) \<Rightarrow> pystr \<Rightarrow> pystr" where
  "strip_chars C s = rev (dropWhile C (rev (dropWhile C s)))"

text \<open>
  \<^verbatim>\<open>re.findall(r'\b\w+\b', s)\<close>: a match starts at a word boundary, takes word
  characters greedily and must end at a word boundary, so the matches are the maximal
  runs of word characters, from left to right.
\<close>

function re_findall_runs :: "(cp \<Rightarrow> bool) \<Rightarrow> pystr \<Rightarrow> pystr list" where
  "re_findall_runs C [] = []"
| "re_findall_runs C (c # cs) =
     (if C c then (c # takeWhile C cs) # re_findall_runs C (dropWhile C cs)
      else re_findall_runs C cs)"
  by pat_completeness auto
termination
  by (relation "measure (\<lambda>(C, s). length s)")
     (auto simp: less_Suc_eq_le length_dropWhile_le)

definition starts_with :: "pystr \<Rightarrow> pystr \<Rightarrow> bool" where
  "starts_with s p \<longleftrightarrow> take (length p) s = p"

definition ends_with :: "pystr \<Rightarrow> pystr \<Rightarrow> bool" where
  "ends_with s p \<longleftrightarrow> starts_with (rev s) (rev p)"

section \<open>Slug and text normalizer\<close>

text \<open>
  \<^verbatim>\<open>
  def sanitize_filename(filename):
      filename = re.sub(r'[^\w\s-]', '', filename)
      filename = re.sub(r'[-\s]+', '-', filename)
      return filename.lower().strip('-')
  \<close>
\<close>

definition sanitize_filename :: "unicode_db \<Rightarrow> pystr \<Rightarrow> pystr" where
  "sanitize_filename U filename =
     (let filename = filter (\<lambda>c. is_word U c \<or> is_space c \<or> c = hyphen) filename;
          filename = re_collapse (\<lambda>c. c = hyphen \<or> is_space c) filename
      in strip_chars (\<lambda>c. c = hyphen) (str_lower U filename))"

text \<open>
  \<^verbatim>\<open>
  def generate_slug(title):
      slug = title.lower()
      slug = slug.replace('g-breve', 'g').replace('u-diaeresis', 'u').replace('s-cedilla', 's')
      slug = slug.replace('dotless-i', 'i').replace('o-diaeresis', 'o').replace('c-cedilla', 'c')
      slug = re.sub(r'[^a-z0-9\s-]', '', slug)
      slug = re.sub(r'\s+', '-', slug)
      slug = re.sub(r'-+', '-', slug)
      return slug.strip('-')
  \<close>
  The six Turkish letters are U+011F, U+00FC, U+015F, U+0131, U+00F6 and U+00E7.
\<close>

definition generate_slug :: "unicode_db \<Rightarrow> pystr \<Rightarrow> pystr" where
  "generate_slug U title =
     (let slug = str_lower U title;
          slug = replace_char 351 115 (replace_char 252 117 (replace_char 287 103 slug));
          slug = replace_char 231 99 (replace_char 246 111 (replace_char 305 105 slug));
          slug = filter (\<lambda>c. is_az c \<or> is_09 c \<or> is_space c \<or> c = hyphen) slug;
          slug = re_collapse is_space slug;
          slug = re_collapse (\<lambda>c. c = hyphen) slug
      in strip_chars (\<lambda>c. c = hyphen) slug)"

text \<open>
  \<^verbatim>\<open>
  def calculate_reading_time(text):
      words = len(re.findall(r'\b\w+\b', text))
      return max(1, (words + 199) // 200)
  \<close>
\<close>

definition calculate_reading_time :: "unicode_db \<Rightarrow> pystr \<Rightarrow> int" where
  "calculate_reading_time U text =
     (let words = int (length (re_findall_runs (is_word U) text))
      in max 1 ((words + 199) div 200))"

subsection \<open>The Unicode tables below U+0180\<close>

text \<open>
  For evaluating the functions on concrete strings, \<open>latin_db\<close> gives the two tables on
  Basic Latin, Latin-1 Supplement and Latin Extended-A; the code points from U+0180 on
  are outside of it (left unchanged, not alphanumeric) and no example uses them.
  U+0130 lowers to the two code points U+0069 U+0307.
\<close>

definition latin_lower_cp :: "cp \<Rightarrow> pystr" where
  "latin_lower_cp c =
     (if 65 \<le> c \<and> c \<le> 90 then [c + 32]
      else if 192 \<le> c \<and> c \<le> 222 \<and> c \<noteq> 215 then [c + 32]
      else if c = 304 then [105, 775]
      else if c = 376 then [255]
      else if (256 \<le> c \<and> c \<le> 303 \<or> 306 \<le> c \<and> c \<le> 311 \<or> 330 \<le> c \<and> c \<le> 375) \<and> even c
        then [c + 1]
      else if (313 \<le> c \<and> c \<le> 328 \<or> 377 \<le> c \<and> c \<le> 382) \<and> odd c then [c + 1]
      else [c])"

definition latin_isalnum :: "cp \<Rightarrow> bool" where
  "latin_isalnum c \<longleftrightarrow>
     (48 \<le> c \<and> c \<le> 57) \<or> (65 \<le> c \<and> c \<le> 90) \<or> (97 \<le> c \<and> c \<le> 122) \<or>
     c = 170 \<or> c = 178 \<or> c = 179 \<or> c = 181 \<or> c = 185 \<or> c = 186 \<or>
     c = 188 \<or> c = 189 \<or> c = 190 \<or>
     (192 \<le> c \<and> c \<le> 383 \<and> c \<noteq> 215 \<and> c \<noteq> 247)"

definition latin_db :: unicode_db where
  "latin_db = \<lparr> str_lower = (\<lambda>s. concat (map latin_lower_cp s)), str_isalnum = latin_isalnum \<rparr>"

subsection \<open>Predicates on slugs\<close>

text \<open>No two hyphens in a row.\<close>

fun no_double_hyphen :: "pystr \<Rightarrow> bool" where
  "no_double_hyphen (a # b # cs) \<longleftrightarrow> \<not> (a = hyphen \<and> b = hyphen) \<and> no_double_hyphen (b # cs)"
| "no_double_hyphen _ \<longleftrightarrow> True"

text \<open>The characters \<^verbatim>\<open>[a-z0-9-]\<close>.\<close>

definition is_slug_char :: "cp \<Rightarrow> bool" where
  "is_slug_char c \<longleftrightarrow> is_az c \<or> is_09 c \<or> c = hyphen"

text \<open>
  What the idempotence of \<open>generate_slug\<close> needs of \<^verbatim>\<open>str.lower\<close>: a string of
  lower-case ASCII letters, digits and hyphens is its own lower-case form.
\<close>

definition lower_fixes_slugs :: "unicode_db \<Rightarrow> bool" where
  "lower_fixes_slugs U \<longleftrightarrow> (\<forall>s. list_all is_slug_char s \<longrightarrow> str_lower U s = s)"

text \<open>
  What the file names of \<open>download_image\<close> need of the Unicode tables: the full stop
  is not alphanumeric, and \<^verbatim>\<open>str.lower\<close> brings no full stop into a string without one.
\<close>

definition dot_free_tables :: "unicode_db \<Rightarrow> bool" where
  "dot_free_tables U \<longleftrightarrow>
     \<not> str_isalnum U dot \<and> (\<forall>s. dot \<notin> set s \<longrightarrow> dot \<notin> set (str_lower U s))"

section \<open>The parsed document\<close>

text \<open>
  BeautifulSoup gives a tree of tags and strings. \<open>Elem name attrs children\<close> is a
  tag with its attribute dictionary (an association list, looked up with \<open>map_of\<close>);
  \<open>Text s\<close> is a string that \<^verbatim>\<open>get_text\<close> yields. The \<^verbatim>\<open>BeautifulSoup\<close> object
  itself is the root tag, named \<^verbatim>\<open>[document]\<close>. A tag object of the library is a
  reference into the tree: it is modelled by the path of child indices from the root, so
  that a change made through one reference is seen through the others.
\<close>

datatype node = Text pystr | Elem pystr "(pystr \<times> pystr) list" "node list"

type_synonym path = "nat list"

fun name_is :: "pystr \<Rightarrow> node \<Rightarrow> bool" where
  "name_is t (Elem t' a cs) \<longleftrightarrow> t' = t"
| "name_is t (Text s) \<longleftrightarrow> False"

text \<open>\<^verbatim>\<open>tag.get(key)\<close>, \<open>None\<close> where the attribute is absent.\<close>

fun get_attr :: "node \<Rightarrow> pystr \<Rightarrow> pystr option" where
  "get_attr (Elem t a cs) k = map_of a k"
| "get_attr (Text s) k = None"

text \<open>The nodes below a node in document order, each with its path from that node.\<close>

fun desc_node :: "node \<Rightarrow> (path \<times> node) list"
  and desc_forest :: "nat \<Rightarrow> node list \<Rightarrow> (path \<times> node) list" where
  "desc_node (Text s) = []"
| "desc_node (Elem t a cs) = desc_forest 0 cs"
| "desc_forest i [] = []"
| "desc_forest i (c # cs) =
     ([i], c) # map (\<lambda>(p, n). (i # p, n)) (desc_node c) @ desc_forest (Suc i) cs"

text \<open>\<^verbatim>\<open>tag.find(...)\<close> and \<^verbatim>\<open>tag.find_all(...)\<close> for a matcher \<open>P\<close>.\<close>

definition soup_find_at :: "(node \<Rightarrow> bool) \<Rightarrow> node \<Rightarrow> (path \<times> node) option" where
  "soup_find_at P n = find (\<lambda>(p, m). P m) (desc_node n)"

definition soup_find :: "(node \<Rightarrow> bool) \<Rightarrow> node \<Rightarrow> node option" where
  "soup_find P n = map_option snd (soup_find_at P n)"

definition soup_find_all :: "(node \<Rightarrow> bool) \<Rightarrow> node \<Rightarrow> node list" where
  "soup_find_all P n = filter P (map snd (desc_node n))"

text \<open>\<^verbatim>\<open>a or b\<close> on two optional tags: a tag object is always true.\<close>

fun or_else :: "'a option \<Rightarrow> 'a option \<Rightarrow> 'a option" where
  "or_else (Some x) y = Some x"
| "or_else None y = y"

text \<open>The node at a path is replaced by its image under \<open>f\<close>.\<close>

fun map_at :: "(node \<Rightarrow> node) \<Rightarrow> path \<Rightarrow> node \<Rightarrow> node" where
  "map_at f [] n = f n"
| "map_at f (i # p) (Elem t a cs) =
     (if i < length cs then Elem t a (cs[i := map_at f p (cs ! i)]) else Elem t a cs)"
| "map_at f (i # p) (Text s) = Text s"

text \<open>
  \<^verbatim>\<open>tag.get_text()\<close> joins the strings below the tag; with \<^verbatim>\<open>strip=True\<close> each
  string is stripped of whitespace first and the empty ones are left out.
\<close>

fun strings_of :: "node \<Rightarrow> pystr list" where
  "strings_of (Text s) = [s]"
| "strings_of (Elem t a cs) = concat (map strings_of cs)"

definition get_text :: "node \<Rightarrow> pystr" where
  "get_text n = concat (strings_of n)"

definition get_text_strip :: "node \<Rightarrow> pystr" where
  "get_text_strip n = concat (filter (\<lambda>s. s \<noteq> []) (map (strip_chars is_space) (strings_of n)))"

text \<open>
  \<^verbatim>\<open>for e in tag.find_all(P): e.decompose()\<close> removes every node below the tag that
  matches, with all that is below it.
\<close>

fun prune :: "(node \<Rightarrow> bool) \<Rightarrow> node \<Rightarrow> node" where
  "prune P (Text s) = Text s"
| "prune P (Elem t a cs) = Elem t a (map (prune P) (filter (\<lambda>c. \<not> P c) cs))"

text \<open>\<^verbatim>\<open>p in s\<close> on strings, and \<^verbatim>\<open>re.search('p1|p2|...', s)\<close> for literal alternatives.\<close>

fun contains :: "pystr \<Rightarrow> pystr \<Rightarrow> bool" where
  "contains [] p \<longleftrightarrow> p = []"
| "contains (c # cs) p \<longleftrightarrow> starts_with (c # cs) p \<or> contains cs p"

definition re_search_any :: "pystr list \<Rightarrow> pystr \<Rightarrow> bool" where
  "re_search_any pats s \<longleftrightarrow> list_ex (contains s) pats"

text \<open>
  The matchers of the scraper. \<^verbatim>\<open>class_=re.compile('a|b')\<close> searches each class of
  the tag and the whole attribute; the alternatives have no whitespace, so this is a
  search in the attribute value. \<^verbatim>\<open>href=re.compile(...)\<close> searches the attribute value.
\<close>

definition attr_search :: "pystr \<Rightarrow> pystr list \<Rightarrow> node \<Rightarrow> bool" where
  "attr_search k pats n \<longleftrightarrow> (case get_attr n k of None \<Rightarrow> False | Some v \<Rightarrow> re_search_any pats v)"

definition class_search :: "pystr list \<Rightarrow> node \<Rightarrow> bool" where
  "class_search pats n \<longleftrightarrow> attr_search (u ''class'') pats n"

definition attr_is :: "pystr \<Rightarrow> pystr \<Rightarrow> node \<Rightarrow> bool" where
  "attr_is k v n \<longleftrightarrow> get_attr n k = Some v"

text \<open>
  The CSS selectors of \<^verbatim>\<open>clean_html_content\<close>: a tag name, \<^verbatim>\<open>.cls\<close> (one of the
  whitespace-separated classes is \<open>cls\<close>) and \<^verbatim>\<open>[class*="s"]\<close> (the class attribute
  contains \<open>s\<close>).
\<close>

datatype selector = ByTag pystr | ByClass pystr | ByClassSubstr pystr

fun selector_matches :: "selector \<Rightarrow> node \<Rightarrow> bool" where
  "selector_matches (ByTag t) n \<longleftrightarrow> name_is t n"
| "selector_matches (ByClass c) n \<longleftrightarrow>
     (case get_attr n (u ''class'') of None \<Rightarrow> False
      | Some v \<Rightarrow> c \<in> set (re_findall_runs (\<lambda>x. \<not> is_space x) v))"
| "selector_matches (ByClassSubstr s) n \<longleftrightarrow>
     (case get_attr n (u ''class'') of None \<Rightarrow> False | Some v \<Rightarrow> contains v s)"

section \<open>Libraries and the outside world\<close>

text \<open>An exception of Python, as a value.\<close>

datatype exn = RequestError | HTTPStatusError | ParserError | ValueError | OSError

definition bind_exn :: "exn + 'a \<Rightarrow> ('a \<Rightarrow> exn + 'b) \<Rightarrow> exn + 'b" where
  "bind_exn r f = (case r of Inl e \<Rightarrow> Inl e | Inr x \<Rightarrow> f x)"

text \<open>
  The library functions whose code is not in the repository are parameters:
  \<^item> \<open>unicode\<close>: the Unicode tables;
  \<^item> \<open>bs_parse html\<close>: \<^verbatim>\<open>BeautifulSoup(html, 'html.parser')\<close>, the root of the tree;
  \<^item> \<open>bs_str tag\<close>: \<^verbatim>\<open>str(tag)\<close>, the markup of a tag;
  \<^item> \<open>urljoin base ref\<close> and \<open>urlparse_path url\<close> (\<^verbatim>\<open>urlparse(url).path\<close>), which
    raise \<^verbatim>\<open>ValueError\<close> on some malformed URLs;
  \<^item> \<open>strptime_iso s fmt\<close>: \<^verbatim>\<open>datetime.strptime(s, fmt).isoformat()\<close>, \<open>None\<close> where
    \<^verbatim>\<open>strptime\<close> raises;
  \<^item> \<open>set_iter\<close>: the order in which a \<^verbatim>\<open>for\<close> loop visits a set, given its elements
    in the order of insertion.
\<close>

record lib =
  unicode :: unicode_db
  bs_parse :: "pystr \<Rightarrow> exn + node"
  bs_str :: "node \<Rightarrow> pystr"
  urljoin :: "pystr \<Rightarrow> pystr \<Rightarrow> exn + pystr"
  urlparse_path :: "pystr \<Rightarrow> exn + pystr"
  strptime_iso :: "pystr \<Rightarrow> pystr \<Rightarrow> pystr option"
  set_iter :: "pystr list \<Rightarrow> pystr list"

text \<open>
  The world the script runs in:
  \<^item> \<open>http_get url\<close>: \<^verbatim>\<open>requests.get(url, ...)\<close> followed by
    \<^verbatim>\<open>raise_for_status()\<close>; the body of the response, or the exception raised;
  \<^item> \<open>clock url\<close>: \<^verbatim>\<open>datetime.now().isoformat()\<close> at the time \<open>url\<close> is scraped;
  \<^item> \<open>fs_mkdir dir\<close> and \<open>fs_write path\<close>: whether creating the directory and writing
    the file succeed (they raise \<^verbatim>\<open>OSError\<close> otherwise).
\<close>

record world =
  http_get :: "pystr \<Rightarrow> exn + pystr"
  clock :: "pystr \<Rightarrow> pystr"
  fs_mkdir :: "pystr \<Rightarrow> bool"
  fs_write :: "pystr \<Rightarrow> bool"

text \<open>The lines the script prints.\<close>

datatype log_line =
    LogStarting
  | LogFinding
  | LogFound nat
  | LogFetchingPage nat
  | LogPageError nat exn
  | LogScraping pystr
  | LogNoContent pystr
  | LogScrapeError pystr exn
  | LogImageError pystr exn
  | LogSaved pystr
  | LogComplete int

text \<open>JSON values, and a post: a dictionary with string keys, in the order of insertion.\<close>

datatype json = JNull | JBool bool | JInt int | JStr pystr | JList "json list"

type_synonym post = "(string \<times> json) list"

text \<open>
  \<^verbatim>\<open>
  BASE_URL = "https://postgrespro.com/blog"
  CONTENT_DIR = Path(__file__).parent.parent / "Postgrespro.tr" / "wwwroot" / "content" / "blog"
  IMAGES_DIR = Path(__file__).parent.parent / "Postgrespro.tr" / "wwwroot" / "blog"
  CATEGORY_MAP = {
      "PostgreSQL": {"en": "PostgreSQL", "tr": "PostgreSQL"},
      "Company Updates": {"en": "Company Updates", "tr": "Sirket Guncellemeleri"}
  }
  \<close>
  The directories are written relative to the directory above the script's; the Turkish
  name has U+015E and U+00FC.
\<close>

definition BASE_URL :: pystr where
  "BASE_URL = u ''https://postgrespro.com/blog''"

definition CONTENT_DIR :: pystr where
  "CONTENT_DIR = u ''Postgrespro.tr/wwwroot/content/blog''"

definition IMAGES_DIR :: pystr where
  "IMAGES_DIR = u ''Postgrespro.tr/wwwroot/blog''"

definition CATEGORY_MAP :: "(pystr \<times> (string \<times> pystr) list) list" where
  "CATEGORY_MAP =
     [(u ''PostgreSQL'', [(''en'', u ''PostgreSQL''), (''tr'', u ''PostgreSQL'')]),
      (u ''Company Updates'',
         [(''en'', u ''Company Updates''),
          (''tr'', [350] @ u ''irket G'' @ [252] @ u ''ncellemeleri'')])]"

text \<open>
  \<^verbatim>\<open>dir / name\<close> of \<^verbatim>\<open>pathlib\<close>: an absolute \<open>name\<close> replaces \<open>dir\<close>, an empty one
  leaves it.
\<close>

definition path_join :: "pystr \<Rightarrow> pystr \<Rightarrow> pystr" where
  "path_join dir name =
     (if starts_with name [slash] then name
      else if name = [] then dir
      else dir @ [slash] @ name)"

text \<open>\<^verbatim>\<open>os.path.basename(p)\<close> and \<^verbatim>\<open>os.path.splitext(p)[1]\<close> on POSIX paths.\<close>

definition basename :: "pystr \<Rightarrow> pystr" where
  "basename p = rev (takeWhile (\<lambda>c. c \<noteq> slash) (rev p))"

definition splitext_ext :: "pystr \<Rightarrow> pystr" where
  "splitext_ext p =
     (let r = rev (basename p)
      in if dot \<in> set r \<and> list_ex (\<lambda>c. c \<noteq> dot) (tl (dropWhile (\<lambda>c. c \<noteq> dot) r))
         then dot # rev (takeWhile (\<lambda>c. c \<noteq> dot) r)
         else [])"

text \<open>\<^verbatim>\<open>a or b\<close> on two values that are a string or \<open>None\<close>.\<close>

definition str_or :: "pystr option \<Rightarrow> pystr option \<Rightarrow> pystr option" where
  "str_or a b = (case a of None \<Rightarrow> b | Some v \<Rightarrow> if v \<noteq> [] then Some v else b)"

text \<open>\<^verbatim>\<open>str(n)\<close> for a non-negative integer.\<close>

fun str_of_nat :: "nat \<Rightarrow> pystr" where
  "str_of_nat n = (if n < 10 then [48 + n] else str_of_nat (n div 10) @ [48 + n mod 10])"

declare str_of_nat.simps [simp del]

section \<open>HTML content cleaner\<close>

text \<open>
  \<^verbatim>\<open>
  def clean_html_content(html):
      soup = BeautifulSoup(html, 'html.parser')
      unwanted_selectors = [
          'script', 'style', 'nav', 'footer', 'header',
          '.subscribe', '.social-share', '.newsletter',
          '.advertisement', '.ads', '[class*="ad-"]',
          '[class*="subscribe"]', '[class*="newsletter"]'
      ]
      for selector in unwanted_selectors:
          for element in soup.select(selector):
              element.decompose()
      for p in soup.find_all('p'):
          if not p.get_text(strip=True):
              p.decompose()
      return str(soup)
  \<close>
\<close>

definition unwanted_selectors :: "selector list" where
  "unwanted_selectors =
     [ByTag (u ''script''), ByTag (u ''style''), ByTag (u ''nav''), ByTag (u ''footer''),
      ByTag (u ''header''),
      ByClass (u ''subscribe''), ByClass (u ''social-share''), ByClass (u ''newsletter''),
      ByClass (u ''advertisement''), ByClass (u ''ads''), ByClassSubstr (u ''ad-''),
      ByClassSubstr (u ''subscribe''), ByClassSubstr (u ''newsletter'')]"

definition clean_html_content :: "lib \<Rightarrow> pystr \<Rightarrow> exn + pystr" where
  "clean_html_content L html =
     bind_exn (bs_parse L html) (\<lambda>soup.
       let soup = foldl (\<lambda>s sel. prune (selector_matches sel) s) soup unwanted_selectors;
           soup = prune (\<lambda>p. name_is (u ''p'') p \<and> get_text_strip p = []) soup
       in Inr (bs_str L soup))"

section \<open>Image extractor and downloader\<close>

text \<open>
  \<^verbatim>\<open>
  def extract_images(html, base_url):
      soup = BeautifulSoup(html, 'html.parser')
      images = []
      for img in soup.find_all('img'):
          src = img.get('src') or img.get('data-src')
          if src:
              if src.startswith('//'):
                  src = 'https:' + src
              elif src.startswith('/'):
                  src = urljoin(base_url, src)
              elif not src.startswith('http'):
                  src = urljoin(base_url, src)
              images.append(src)
      return images
  \<close>
  \<open>resolve_images\<close> is the loop, with the list built so far.
\<close>

fun resolve_images :: "lib \<Rightarrow> pystr \<Rightarrow> node list \<Rightarrow> pystr list \<Rightarrow> exn + pystr list" where
  "resolve_images L base_url [] images = Inr images"
| "resolve_images L base_url (img # imgs) images =
     (case str_or (get_attr img (u ''src'')) (get_attr img (u ''data-src'')) of
        None \<Rightarrow> resolve_images L base_url imgs images
      | Some src \<Rightarrow>
          if src = [] then resolve_images L base_url imgs images
          else if starts_with src (u ''//'')
            then resolve_images L base_url imgs (images @ [u ''https:'' @ src])
          else if starts_with src (u ''/'')
            then (case urljoin L base_url src of
                    Inl e \<Rightarrow> Inl e
                  | Inr src' \<Rightarrow> resolve_images L base_url imgs (images @ [src']))
          else if \<not> starts_with src (u ''http'')
            then (case urljoin L base_url src of
                    Inl e \<Rightarrow> Inl e
                  | Inr src' \<Rightarrow> resolve_images L base_url imgs (images @ [src']))
          else resolve_images L base_url imgs (images @ [src]))"

definition extract_images :: "lib \<Rightarrow> pystr \<Rightarrow> pystr \<Rightarrow> exn + pystr list" where
  "extract_images L html base_url =
     bind_exn (bs_parse L html) (\<lambda>soup.
       resolve_images L base_url (soup_find_all (name_is (u ''img'')) soup) [])"

text \<open>
  \<^verbatim>\<open>
  def download_image(img_url, slug):
      try:
          response = requests.get(img_url, timeout=10, headers={...})
          response.raise_for_status()
          parsed = urlparse(img_url)
          ext = os.path.splitext(parsed.path)[1] or '.jpg'
          post_images_dir = IMAGES_DIR / slug
          post_images_dir.mkdir(parents=True, exist_ok=True)
          filename = sanitize_filename(os.path.basename(parsed.path)) or 'image'
          if not filename.endswith(ext):
              filename += ext
          local_path = post_images_dir / filename
          local_path.write_bytes(response.content)
          return f"/blog/{slug}/{filename}"
      except Exception as e:
          print(f"Error downloading image {img_url}: {e}")
          return None
  \<close>
  \<open>download_body\<close> is the \<^verbatim>\<open>try\<close> block: the file written (path and bytes) and the
  path returned, or the exception. \<open>download_image\<close> gives what is printed, the files
  written and the value returned.
\<close>

definition image_ext :: "pystr \<Rightarrow> pystr" where
  "image_ext path = (if splitext_ext path = [] then u ''.jpg'' else splitext_ext path)"

definition image_filename :: "unicode_db \<Rightarrow> pystr \<Rightarrow> pystr" where
  "image_filename U path =
     (let ext = image_ext path;
          filename = (if sanitize_filename U (basename path) = [] then u ''image''
                      else sanitize_filename U (basename path))
      in if \<not> ends_with filename ext then filename @ ext else filename)"

definition download_body :: "lib \<Rightarrow> world \<Rightarrow> pystr \<Rightarrow> pystr \<Rightarrow> exn + ((pystr \<times> pystr) \<times> pystr)" where
  "download_body L W img_url slug =
     bind_exn (http_get W img_url) (\<lambda>content.
     bind_exn (urlparse_path L img_url) (\<lambda>parsed_path.
       let post_images_dir = path_join IMAGES_DIR slug in
       if \<not> fs_mkdir W post_images_dir then Inl OSError
       else
         let filename = image_filename (unicode L) parsed_path;
             local_path = path_join post_images_dir filename
         in if \<not> fs_write W local_path then Inl OSError
            else Inr ((local_path, content), u ''/blog/'' @ slug @ [slash] @ filename)))"

definition download_image ::
    "lib \<Rightarrow> world \<Rightarrow> pystr \<Rightarrow> pystr \<Rightarrow> log_line list \<times> (pystr \<times> pystr) list \<times> pystr option" where
  "download_image L W img_url slug =
     (case download_body L W img_url slug of
        Inl e \<Rightarrow> ([LogImageError img_url e], [], None)
      | Inr (file, site_path) \<Rightarrow> ([], [file], Some site_path))"

section \<open>Post extractor\<close>

text \<open>
  The blocks of \<^verbatim>\<open>scrape_blog_post\<close>, in the order of the source.
  \<^verbatim>\<open>
  title_elem = soup.find('h1') or soup.find('title')
  title = title_elem.get_text(strip=True) if title_elem else "Untitled"
  \<close>
\<close>

definition extract_title :: "node \<Rightarrow> pystr" where
  "extract_title soup =
     (case or_else (soup_find (name_is (u ''h1'')) soup) (soup_find (name_is (u ''title'')) soup) of
        Some title_elem \<Rightarrow> get_text_strip title_elem
      | None \<Rightarrow> u ''Untitled'')"

text \<open>
  \<^verbatim>\<open>
  date_str = None
  date_elem = soup.find('time') or soup.find(class_=re.compile(r'date|published'))
  if date_elem:
      date_str = date_elem.get('datetime') or date_elem.get_text(strip=True)
  date = None
  if date_str:
      try:
          for fmt in ['%Y-%m-%d', '%B %d, %Y', '%d %B %Y', '%Y-%m-%dT%H:%M:%S']:
              try:
                  date = datetime.strptime(date_str[:19], fmt)
                  break
              except:
                  continue
      except:
          pass
  if not date:
      date = datetime.now()
  \<close>
  The result is \<^verbatim>\<open>date.isoformat()\<close>.
\<close>

definition date_formats :: "pystr list" where
  "date_formats = [u ''%Y-%m-%d'', u ''%B %d, %Y'', u ''%d %B %Y'', u ''%Y-%m-%dT%H:%M:%S'']"

fun first_parse :: "lib \<Rightarrow> pystr \<Rightarrow> pystr list \<Rightarrow> pystr option" where
  "first_parse L s [] = None"
| "first_parse L s (fmt # fmts) =
     (case strptime_iso L s fmt of Some d \<Rightarrow> Some d | None \<Rightarrow> first_parse L s fmts)"

definition extract_date :: "lib \<Rightarrow> world \<Rightarrow> pystr \<Rightarrow> node \<Rightarrow> pystr" where
  "extract_date L W url soup =
     (let date_elem = or_else (soup_find (name_is (u ''time'')) soup)
                        (soup_find (class_search [u ''date'', u ''published'']) soup);
          date_str = (case date_elem of
                        None \<Rightarrow> None
                      | Some e \<Rightarrow> str_or (get_attr e (u ''datetime'')) (Some (get_text_strip e)));
          date = (case date_str of
                    None \<Rightarrow> None
                  | Some s \<Rightarrow> if s = [] then None else first_parse L (take 19 s) date_formats)
      in case date of None \<Rightarrow> clock W url | Some d \<Rightarrow> d)"

text \<open>
  \<^verbatim>\<open>
  author = "Postgres Pro"
  author_elem = soup.find(class_=re.compile(r'author|byline'))
  if author_elem:
      author = author_elem.get_text(strip=True)
  \<close>
\<close>

definition extract_author :: "node \<Rightarrow> pystr" where
  "extract_author soup =
     (case soup_find (class_search [u ''author'', u ''byline'']) soup of
        Some author_elem \<Rightarrow> get_text_strip author_elem
      | None \<Rightarrow> u ''Postgres Pro'')"

text \<open>
  \<^verbatim>\<open>
  category = "PostgreSQL"
  category_elem = soup.find(class_=re.compile(r'category|tag'))
  if category_elem:
      cat_text = category_elem.get_text(strip=True)
      if cat_text in CATEGORY_MAP:
          category = cat_text
  \<close>
\<close>

definition extract_category :: "node \<Rightarrow> pystr" where
  "extract_category soup =
     (case soup_find (class_search [u ''category'', u ''tag'']) soup of
        Some category_elem \<Rightarrow>
          (let cat_text = get_text_strip category_elem
           in if map_of CATEGORY_MAP cat_text \<noteq> None then cat_text else u ''PostgreSQL'')
      | None \<Rightarrow> u ''PostgreSQL'')"

text \<open>
  \<^verbatim>\<open>
  tags = []
  tag_elems = soup.find_all(class_=re.compile(r'tag|keyword'))
  for tag_elem in tag_elems:
      tag_text = tag_elem.get_text(strip=True)
      if tag_text and tag_text not in tags:
          tags.append(tag_text)
  \<close>
\<close>

definition extract_tags :: "node \<Rightarrow> pystr list" where
  "extract_tags soup =
     foldl (\<lambda>tags tag_elem.
              let tag_text = get_text_strip tag_elem
              in if tag_text \<noteq> [] \<and> tag_text \<notin> set tags then tags @ [tag_text] else tags)
       [] (soup_find_all (class_search [u ''tag'', u ''keyword'']) soup)"

text \<open>
  \<^verbatim>\<open>
  content_elem = soup.find('article') or soup.find('main') or
                 soup.find(class_=re.compile(r'content|post-body'))
  if not content_elem:
      content_elem = soup.find('body')
  \<close>
  The content region with its place in the document.
\<close>

definition find_content :: "node \<Rightarrow> (path \<times> node) option" where
  "find_content soup =
     or_else
       (or_else (or_else (soup_find_at (name_is (u ''article'')) soup)
                         (soup_find_at (name_is (u ''main'')) soup))
                (soup_find_at (class_search [u ''content'', u ''post-body'']) soup))
       (soup_find_at (name_is (u ''body'')) soup)"

text \<open>
  \<^verbatim>\<open>
  for unwanted in content_elem.find_all(['script', 'style', 'nav', 'footer']):
      unwanted.decompose()
  \<close>
\<close>

definition strip_unwanted :: "node \<Rightarrow> node" where
  "strip_unwanted content_elem =
     prune (\<lambda>n. name_is (u ''script'') n \<or> name_is (u ''style'') n \<or>
                 name_is (u ''nav'') n \<or> name_is (u ''footer'') n) content_elem"

text \<open>
  \<^verbatim>\<open>
  excerpt = ""
  excerpt_elem = soup.find('meta', property='og:description') or
                 soup.find('meta', attrs={'name': 'description'})
  if excerpt_elem:
      excerpt = excerpt_elem.get('content', '')
  if not excerpt:
      first_p = content_elem.find('p')
      if first_p:
          excerpt = first_p.get_text(strip=True)[:200]
  \<close>
  Here \<open>soup\<close> and \<open>content_elem\<close> are the document and the content region after the
  unwanted tags were removed from the region.
\<close>

definition meta_excerpt :: "node \<Rightarrow> pystr" where
  "meta_excerpt soup =
     (case or_else
             (soup_find (\<lambda>n. name_is (u ''meta'') n \<and> attr_is (u ''property'') (u ''og:description'') n) soup)
             (soup_find (\<lambda>n. name_is (u ''meta'') n \<and> attr_is (u ''name'') (u ''description'') n) soup) of
        Some excerpt_elem \<Rightarrow>
          (case get_attr excerpt_elem (u ''content'') of Some v \<Rightarrow> v | None \<Rightarrow> [])
      | None \<Rightarrow> [])"

definition extract_excerpt :: "node \<Rightarrow> node \<Rightarrow> pystr" where
  "extract_excerpt soup content_elem =
     (let excerpt = meta_excerpt soup
      in if excerpt = []
         then (case soup_find (name_is (u ''p'')) content_elem of
                 Some first_p \<Rightarrow> take 200 (get_text_strip first_p)
               | None \<Rightarrow> excerpt)
         else excerpt)"

text \<open>
  \<^verbatim>\<open>
  post = {
      "title": title,
      "titleTr": title,
      "slug": slug,
      "date": date.isoformat(),
      "author": author,
      "category": category,
      "categoryTr": CATEGORY_MAP.get(category, {}).get("tr", category),
      "tags": tags,
      "tagsTr": tags,
      "sourceUrl": url,
      "canonicalUrl": url,
      "excerpt": excerpt,
      "excerptTr": excerpt,
      "content": content_html,
      "contentTr": content_html,
      "readingTime": reading_time,
      "heroImage": None,
      "images": images,
      "published": True
  }
  \<close>
\<close>

definition category_tr :: "pystr \<Rightarrow> pystr" where
  "category_tr category =
     (case map_of CATEGORY_MAP category of
        None \<Rightarrow> category
      | Some names \<Rightarrow> (case map_of names ''tr'' of None \<Rightarrow> category | Some v \<Rightarrow> v))"

definition make_post ::
    "pystr \<Rightarrow> pystr \<Rightarrow> pystr \<Rightarrow> pystr \<Rightarrow> pystr \<Rightarrow> pystr list \<Rightarrow> pystr \<Rightarrow> pystr \<Rightarrow> pystr \<Rightarrow> int \<Rightarrow>
     pystr list \<Rightarrow> post" where
  "make_post title slug date author category tags url excerpt content_html reading_time images =
     [(''title'', JStr title),
      (''titleTr'', JStr title),
      (''slug'', JStr slug),
      (''date'', JStr date),
      (''author'', JStr author),
      (''category'', JStr category),
      (''categoryTr'', JStr (category_tr category)),
      (''tags'', JList (map JStr tags)),
      (''tagsTr'', JList (map JStr tags)),
      (''sourceUrl'', JStr url),
      (''canonicalUrl'', JStr url),
      (''excerpt'', JStr excerpt),
      (''excerptTr'', JStr excerpt),
      (''content'', JStr content_html),
      (''contentTr'', JStr content_html),
      (''readingTime'', JInt reading_time),
      (''heroImage'', JNull),
      (''images'', JList (map JStr images)),
      (''published'', JBool True)]"

text \<open>
  \<open>scrape_body\<close> is the \<^verbatim>\<open>try\<close> block of \<^verbatim>\<open>scrape_blog_post\<close>: the post, \<open>None\<close>
  where no content region is found, or the exception raised. The title, date, author,
  category and tags are read before the unwanted tags are removed from the content
  region, the excerpt after.
  \<^verbatim>\<open>
  def scrape_blog_post(url):
      try:
          print(f"Scraping: {url}")
          response = requests.get(url, timeout=30, headers={...})
          response.raise_for_status()
          soup = BeautifulSoup(response.text, 'html.parser')
          ...
          if content_elem:
              for unwanted in content_elem.find_all(['script', 'style', 'nav', 'footer']):
                  unwanted.decompose()
              content_html = str(content_elem)
              content_html = clean_html_content(content_html)
              images = extract_images(content_html, url)
              ...
              slug = generate_slug(title)
              content_text = content_elem.get_text()
              reading_time = calculate_reading_time(content_text)
              post = {...}
              return post
          else:
              print(f"Could not find content for {url}")
              return None
      except Exception as e:
          print(f"Error scraping {url}: {e}")
          return None
  \<close>
\<close>

definition scrape_body :: "lib \<Rightarrow> world \<Rightarrow> pystr \<Rightarrow> exn + post option" where
  "scrape_body L W url =
     bind_exn (http_get W url) (\<lambda>response_text.
     bind_exn (bs_parse L response_text) (\<lambda>soup.
       let title = extract_title soup;
           date = extract_date L W url soup;
           author = extract_author soup;
           category = extract_category soup;
           tags = extract_tags soup
       in case find_content soup of
            None \<Rightarrow> Inr None
          | Some (content_path, content_elem) \<Rightarrow>
              let content_elem = strip_unwanted content_elem;
                  soup = map_at (\<lambda>_. content_elem) content_path soup
              in bind_exn (clean_html_content L (bs_str L content_elem)) (\<lambda>content_html.
                 bind_exn (extract_images L content_html url) (\<lambda>images.
                   let excerpt = extract_excerpt soup content_elem;
                       slug = generate_slug (unicode L) title;
                       content_text = get_text content_elem;
                       reading_time = calculate_reading_time (unicode L) content_text
                   in Inr (Some (make_post title slug date author category tags url excerpt
                                   content_html reading_time images))))))"

definition scrape_blog_post :: "lib \<Rightarrow> world \<Rightarrow> pystr \<Rightarrow> log_line list \<times> post option" where
  "scrape_blog_post L W url =
     (case scrape_body L W url of
        Inr (Some post) \<Rightarrow> ([LogScraping url], Some post)
      | Inr None \<Rightarrow> ([LogScraping url, LogNoContent url], None)
      | Inl e \<Rightarrow> ([LogScraping url, LogScrapeError url e], None))"

section \<open>Listing crawler\<close>

text \<open>
  \<^verbatim>\<open>
  def find_all_blog_links(base_url):
      links = set()
      page = 1
      while True:
          url = f"{base_url}" if page == 1 else f"{base_url}?page={page}"
          try:
              print(f"Fetching blog list page {page}...")
              response = requests.get(url, timeout=30, headers={...})
              response.raise_for_status()
              soup = BeautifulSoup(response.text, 'html.parser')
              post_links = soup.find_all('a', href=re.compile(r'/blog/'))
              found_new = False
              for link in post_links:
                  href = link.get('href', '')
                  if href and '/blog/' in href:
                      full_url = urljoin(base_url, href)
                      if full_url not in links:
                          links.add(full_url)
                          found_new = True
              next_link = soup.find('a', class_=re.compile(r'next|pagination'))
              if not found_new or not next_link:
                  break
              page += 1
              time.sleep(1)
          except Exception as e:
              print(f"Error fetching blog list page {page}: {e}")
              break
      return links
  \<close>
  The set \<open>links\<close> is the list of its elements in the order of insertion.
\<close>

definition page_url :: "pystr \<Rightarrow> nat \<Rightarrow> pystr" where
  "page_url base_url page =
     (if page = 1 then base_url else base_url @ u ''?page='' @ str_of_nat page)"

text \<open>
  The inner \<^verbatim>\<open>for\<close> loop: the set and \<open>found_new\<close> after the loop, and the exception
  if \<^verbatim>\<open>urljoin\<close> raised one (the links added before it stay in the set).
\<close>

fun add_links ::
    "lib \<Rightarrow> pystr \<Rightarrow> node list \<Rightarrow> pystr list \<Rightarrow> bool \<Rightarrow> pystr list \<times> bool \<times> exn option" where
  "add_links L base_url [] links found_new = (links, found_new, None)"
| "add_links L base_url (link # post_links) links found_new =
     (let href = (case get_attr link (u ''href'') of Some v \<Rightarrow> v | None \<Rightarrow> [])
      in if href \<noteq> [] \<and> contains href (u ''/blog/'')
         then (case urljoin L base_url href of
                 Inl e \<Rightarrow> (links, found_new, Some e)
               | Inr full_url \<Rightarrow>
                   if full_url \<notin> set links
                   then add_links L base_url post_links (links @ [full_url]) True
                   else add_links L base_url post_links links found_new)
         else add_links L base_url post_links links found_new)"

text \<open>
  \<open>post_links_of\<close> is \<^verbatim>\<open>soup.find_all('a', href=re.compile(r'/blog/'))\<close> and
  \<open>next_link_of\<close> is \<^verbatim>\<open>soup.find('a', class_=re.compile(r'next|pagination'))\<close>.
  \<open>crawl_page\<close> is one round of the \<^verbatim>\<open>while\<close> loop: what it printed, the set
  after it, and whether the loop goes on to the next page.
\<close>

definition post_links_of :: "node \<Rightarrow> node list" where
  "post_links_of soup =
     soup_find_all (\<lambda>n. name_is (u ''a'') n \<and> attr_search (u ''href'') [u ''/blog/''] n) soup"

definition next_link_of :: "node \<Rightarrow> node option" where
  "next_link_of soup =
     soup_find (\<lambda>n. name_is (u ''a'') n \<and> class_search [u ''next'', u ''pagination''] n) soup"

definition crawl_page ::
    "lib \<Rightarrow> world \<Rightarrow> pystr \<Rightarrow> nat \<Rightarrow> pystr list \<Rightarrow> log_line list \<times> pystr list \<times> bool" where
  "crawl_page L W base_url page links =
     (case bind_exn (http_get W (page_url base_url page)) (bs_parse L) of
        Inl e \<Rightarrow> ([LogFetchingPage page, LogPageError page e], links, False)
      | Inr soup \<Rightarrow>
          let post_links = post_links_of soup
          in case add_links L base_url post_links links False of
               (links, found_new, Some e) \<Rightarrow>
                 ([LogFetchingPage page, LogPageError page e], links, False)
             | (links, found_new, None) \<Rightarrow>
                 let next_link = next_link_of soup
                 in if \<not> found_new \<or> next_link = None
                    then ([LogFetchingPage page], links, False)
                    else ([LogFetchingPage page], links, True))"

text \<open>
  The \<^verbatim>\<open>while True\<close> loop from a given page on. It has no bound on the number of
  pages, so it is a partial function: \<open>None\<close> is a run that never leaves the loop.
\<close>

partial_function (option) crawl_from ::
    "lib \<Rightarrow> world \<Rightarrow> pystr \<Rightarrow> nat \<Rightarrow> log_line list \<Rightarrow> pystr list \<Rightarrow> (log_line list \<times> pystr list) option" where
  "crawl_from L W base_url page out links =
     (case crawl_page L W base_url page links of
        (printed, links', go_on) \<Rightarrow>
          if go_on then crawl_from L W base_url (page + 1) (out @ printed) links'
          else Some (out @ printed, links'))"

declare crawl_from.simps [code]

definition find_all_blog_links :: "lib \<Rightarrow> world \<Rightarrow> pystr \<Rightarrow> (log_line list \<times> pystr list) option" where
  "find_all_blog_links L W base_url = crawl_from L W base_url 1 [] []"

section \<open>Orchestrator\<close>

text \<open>
  \<^verbatim>\<open>
  def main():
      print("Starting blog scraping...")
      CONTENT_DIR.mkdir(parents=True, exist_ok=True)
      IMAGES_DIR.mkdir(parents=True, exist_ok=True)
      print("Finding all blog post URLs...")
      blog_urls = find_all_blog_links(BASE_URL)
      print(f"Found {len(blog_urls)} blog posts")
      scraped_count = 0
      for url in blog_urls:
          post = scrape_blog_post(url)
          if post:
              slug = post['slug']
              json_path = CONTENT_DIR / f"{slug}.json"
              with open(json_path, 'w', encoding='utf-8') as f:
                  json.dump(post, f, indent=2, ensure_ascii=False)
              scraped_count += 1
              print(f"Saved: {slug}.json")
          time.sleep(2)
      print(f"\nScraping complete! Scraped {scraped_count} posts.")
  \<close>
  The state of a run: the lines printed, the files written (path and the JSON object
  dumped into it, in the order of writing) and the counter.
\<close>

record run_state =
  stdout :: "log_line list"
  written :: "(pystr \<times> post) list"
  scraped_count :: int

text \<open>\<^verbatim>\<open>post['slug']\<close>: the slug is always a string in a post that \<open>make_post\<close> built.\<close>

definition post_slug :: "post \<Rightarrow> pystr" where
  "post_slug post = (case map_of post ''slug'' of Some (JStr s) \<Rightarrow> s | _ \<Rightarrow> [])"

text \<open>
  The \<^verbatim>\<open>for\<close> loop over the URLs. An exception of the file system leaves the loop and
  the program; the state at that moment is returned with it.
\<close>

fun process_urls :: "lib \<Rightarrow> world \<Rightarrow> pystr list \<Rightarrow> run_state \<Rightarrow> (exn \<times> run_state) + run_state" where
  "process_urls L W [] st = Inr st"
| "process_urls L W (url # urls) st =
     (case scrape_blog_post L W url of
        (printed, None) \<Rightarrow>
          process_urls L W urls (st\<lparr>stdout := stdout st @ printed\<rparr>)
      | (printed, Some post) \<Rightarrow>
          let st = st\<lparr>stdout := stdout st @ printed\<rparr>;
              slug = post_slug post;
              json_path = path_join CONTENT_DIR (slug @ u ''.json'')
          in if \<not> fs_write W json_path then Inl (OSError, st)
             else process_urls L W urls
                    (st\<lparr>written := written st @ [(json_path, post)],
                        scraped_count := scraped_count st + 1,
                        stdout := stdout st @ [LogSaved slug]\<rparr>))"

definition main :: "lib \<Rightarrow> world \<Rightarrow> ((exn \<times> run_state) + run_state) option" where
  "main L W =
     (let st = \<lparr>stdout = [LogStarting], written = [], scraped_count = 0\<rparr>
      in if \<not> fs_mkdir W CONTENT_DIR \<or> \<not> fs_mkdir W IMAGES_DIR then Some (Inl (OSError, st))
         else case find_all_blog_links L W BASE_URL of
                None \<Rightarrow> None
              | Some (printed, blog_urls) \<Rightarrow>
                  let st = st\<lparr>stdout := stdout st @ [LogFinding] @ printed @ [LogFound (length blog_urls)]\<rparr>
                  in Some (case process_urls L W (set_iter L blog_urls) st of
                             Inl failure \<Rightarrow> Inl failure
                           | Inr st \<Rightarrow> Inr (st\<lparr>stdout := stdout st @ [LogComplete (scraped_count st)]\<rparr>)))"

section \<open>Notions used in the claims\<close>

text \<open>The state a run ends in, with or without an exception, and the files it wrote.\<close>

fun final_state :: "(exn \<times> run_state) + run_state \<Rightarrow> run_state" where
  "final_state (Inl (e, st)) = st"
| "final_state (Inr st) = st"

definition run_written :: "((exn \<times> run_state) + run_state) option \<Rightarrow> (pystr \<times> post) list" where
  "run_written r = (case r of None \<Rightarrow> [] | Some res \<Rightarrow> written (final_state res))"

text \<open>A field of the post that a call of \<open>scrape_blog_post\<close> returned.\<close>

definition scraped_field :: "string \<Rightarrow> log_line list \<times> post option \<Rightarrow> json option" where
  "scraped_field k r = (case snd r of None \<Rightarrow> None | Some post \<Rightarrow> map_of post k)"

text \<open>The keys of the dictionary that \<^verbatim>\<open>scrape_blog_post\<close> builds, in its order.\<close>

definition post_keys :: "string list" where
  "post_keys =
     [''title'', ''titleTr'', ''slug'', ''date'', ''author'', ''category'', ''categoryTr'',
      ''tags'', ''tagsTr'', ''sourceUrl'', ''canonicalUrl'', ''excerpt'', ''excerptTr'',
      ''content'', ''contentTr'', ''readingTime'', ''heroImage'', ''images'', ''published'']"

text \<open>The field names as the specification lists them.\<close>

definition spec_post_keys :: "string list" where
  "spec_post_keys =
     [''title'', ''titleTranslated'', ''slug'', ''date'', ''author'', ''category'',
      ''categoryTranslated'', ''tags'', ''tagsTranslated'', ''sourceUrl'', ''canonicalUrl'',
      ''excerpt'', ''excerptTranslated'', ''content'', ''contentTranslated'', ''readingTime'',
      ''heroImage'', ''images'', ''published'']"

text \<open>A value of a flat object: a scalar, or an array of strings.\<close>

fun is_jstr :: "json \<Rightarrow> bool" where
  "is_jstr (JStr s) \<longleftrightarrow> True"
| "is_jstr _ \<longleftrightarrow> False"

fun flat_value :: "json \<Rightarrow> bool" where
  "flat_value (JList vs) \<longleftrightarrow> list_all is_jstr vs"
| "flat_value _ \<longleftrightarrow> True"

text \<open>
  The set of links after the first \<open>n\<close> listing pages were visited one after the
  other.
\<close>

primrec links_after :: "lib \<Rightarrow> world \<Rightarrow> pystr \<Rightarrow> nat \<Rightarrow> pystr list" where
  "links_after L W base_url 0 = []"
| "links_after L W base_url (Suc n) =
     fst (snd (crawl_page L W base_url (Suc n) (links_after L W base_url n)))"

text \<open>
  A link of a listing page brings no new URL when its \<^verbatim>\<open>href\<close> is not a blog link,
  cannot be resolved, or resolves to a URL that is in the set already. A page stops the
  crawler when it cannot be fetched or parsed, has no next-page marker, or none of its
  links brings a new URL.
\<close>

definition no_new_url :: "lib \<Rightarrow> pystr \<Rightarrow> pystr list \<Rightarrow> node \<Rightarrow> bool" where
  "no_new_url L base_url links link \<longleftrightarrow>
     (let href = (case get_attr link (u ''href'') of Some v \<Rightarrow> v | None \<Rightarrow> [])
      in \<not> (href \<noteq> [] \<and> contains href (u ''/blog/'')) \<or>
         (case urljoin L base_url href of Inl e \<Rightarrow> True | Inr full_url \<Rightarrow> full_url \<in> set links))"

definition page_stops :: "lib \<Rightarrow> world \<Rightarrow> pystr \<Rightarrow> nat \<Rightarrow> pystr list \<Rightarrow> bool" where
  "page_stops L W base_url page links \<longleftrightarrow>
     (case bind_exn (http_get W (page_url base_url page)) (bs_parse L) of
        Inl e \<Rightarrow> True
      | Inr soup \<Rightarrow>
          next_link_of soup = None \<or> list_all (no_new_url L base_url links) (post_links_of soup))"

text \<open>What a run printed, and whether it ran to its end.\<close>

definition run_stdout :: "((exn \<times> run_state) + run_state) option \<Rightarrow> log_line list" where
  "run_stdout r = (case r of None \<Rightarrow> [] | Some res \<Rightarrow> stdout (final_state res))"

fun completed :: "((exn \<times> run_state) + run_state) option \<Rightarrow> bool" where
  "completed (Some (Inr st)) \<longleftrightarrow> True"
| "completed _ \<longleftrightarrow> False"

text \<open>The set of links after \<open>k\<close> more pages, from a page and a set on.\<close>

primrec links_from :: "lib \<Rightarrow> world \<Rightarrow> pystr \<Rightarrow> nat \<Rightarrow> nat \<Rightarrow> pystr list \<Rightarrow> pystr list" where
  "links_from L W base_url 0 page links = links"
| "links_from L W base_url (Suc k) page links =
     links_from L W base_url k (Suc page) (fst (snd (crawl_page L W base_url page links)))"

section \<open>A small library and world for running the scraper\<close>

text \<open>
  To run the functions on concrete pages, \<open>ex_lib docs\<close> is a library that knows the
  documents \<open>docs\<close>: \<open>render\<close> writes a tree as markup (a tag without content as
  \<^verbatim>\<open><img .../>\<close>), and parsing a text gives the known document with that markup (any
  other text is rejected). \<open>ex_urljoin\<close> resolves a
  reference that is an absolute URL, an absolute path or a plain relative path, and
  \<open>ex_urlparse_path\<close> gives the path of a URL of the form \<^verbatim>\<open>scheme://host/path?query\<close>;
  no date format is known, and a set is visited in the order of insertion.
  \<open>ex_world pages\<close> serves the pages \<open>pages\<close> (every other request fails), its clock
  stands still and its file system accepts every operation.
\<close>

definition void_tags :: "pystr list" where
  "void_tags = [u ''meta'', u ''img'', u ''br'', u ''hr'', u ''link'', u ''input'']"

fun render :: "node \<Rightarrow> pystr" where
  "render (Text s) = s"
| "render (Elem t a cs) =
     (if t = u ''[document]'' then concat (map render cs)
      else u ''<'' @ t @ concat (map (\<lambda>(k, v). u '' '' @ k @ u ''='' @ [34] @ v @ [34]) a) @
           (if t \<in> set void_tags then u ''/>''
            else u ''>'' @ concat (map render cs) @ u ''</'' @ t @ u ''>''))"

definition url_rest :: "pystr \<Rightarrow> pystr" where
  "url_rest url = drop (length (takeWhile (\<lambda>c. c \<noteq> 58) url) + 3) url"

definition url_origin :: "pystr \<Rightarrow> pystr" where
  "url_origin url =
     takeWhile (\<lambda>c. c \<noteq> 58) url @ u ''://'' @ takeWhile (\<lambda>c. c \<noteq> slash) (url_rest url)"

definition ex_urlparse_path :: "pystr \<Rightarrow> exn + pystr" where
  "ex_urlparse_path url =
     Inr (takeWhile (\<lambda>c. c \<noteq> 63 \<and> c \<noteq> 35) (dropWhile (\<lambda>c. c \<noteq> slash) (url_rest url)))"

definition ex_urljoin :: "pystr \<Rightarrow> pystr \<Rightarrow> exn + pystr" where
  "ex_urljoin base ref =
     Inr (if contains ref (u ''://'') then ref
          else if starts_with ref [slash] then url_origin base @ ref
          else url_origin base @
               rev (dropWhile (\<lambda>c. c \<noteq> slash) (rev (case ex_urlparse_path base of Inr p \<Rightarrow> p | Inl e \<Rightarrow> []))) @
               ref)"

definition ex_lib :: "node list \<Rightarrow> lib" where
  "ex_lib docs =
     \<lparr> unicode = latin_db,
       bs_parse = (\<lambda>html. case find (\<lambda>d. render d = html) docs of
                            Some d \<Rightarrow> Inr d
                          | None \<Rightarrow> Inl ParserError),
       bs_str = render,
       urljoin = ex_urljoin,
       urlparse_path = ex_urlparse_path,
       strptime_iso = (\<lambda>s fmt. None),
       set_iter = (\<lambda>urls. urls) \<rparr>"

definition ex_world :: "(pystr \<times> pystr) list \<Rightarrow> world" where
  "ex_world pages =
     \<lparr> http_get = (\<lambda>url. case map_of pages url of
                            Some body \<Rightarrow> Inr body
                          | None \<Rightarrow> Inl HTTPStatusError),
       clock = (\<lambda>url. u ''2024-01-01T00:00:00''),
       fs_mkdir = (\<lambda>dir. True),
       fs_write = (\<lambda>path. True) \<rparr>"

text \<open>
  A post page with the given tags in its head and in its \<^verbatim>\<open>article\<close>, and the
  fragment that \<^verbatim>\<open>str(content_elem)\<close> parses to. \<open>ex_page_lib\<close> and
  \<open>ex_page_world\<close> are a library and a world for one such page, where \<open>cleaned\<close> is
  the content of the article after \<^verbatim>\<open>clean_html_content\<close>.
\<close>

definition ex_post_doc :: "node list \<Rightarrow> node list \<Rightarrow> node" where
  "ex_post_doc head article =
     Elem (u ''[document]'') []
       [Elem (u ''html'') []
          [Elem (u ''head'') [] head,
           Elem (u ''body'') [] [Elem (u ''article'') [] article]]]"

definition ex_fragment :: "node list \<Rightarrow> node" where
  "ex_fragment article = Elem (u ''[document]'') [] [Elem (u ''article'') [] article]"

definition ex_page_lib :: "node list \<Rightarrow> node list \<Rightarrow> node list \<Rightarrow> lib" where
  "ex_page_lib head article cleaned =
     ex_lib [ex_post_doc head article, ex_fragment article, ex_fragment cleaned]"

definition ex_page_world :: "pystr \<Rightarrow> node list \<Rightarrow> node list \<Rightarrow> world" where
  "ex_page_world url head article = ex_world [(url, render (ex_post_doc head article))]"

definition ex_url :: pystr where
  "ex_url = u ''https://postgrespro.com/blog/a-post''"

text \<open>
  Pages for the excerpt: a description of 201 characters in the \<^verbatim>\<open>og:description\<close>
  tag; an empty first paragraph before a paragraph with text; an \<^verbatim>\<open>og:description\<close>
  tag with empty content before a \<^verbatim>\<open>description\<close> tag. And a page whose heading
  has no letter or digit.
\<close>

definition ex_hello_article :: "node list" where
  "ex_hello_article =
     [Elem (u ''h1'') [] [Text (u ''Hello'')],
      Elem (u ''p'') [] [Text (u ''First words.'')],
      Elem (u ''img'') [(u ''src'', u ''/img/a.png'')] []]"

definition ex_long_meta :: "node list" where
  "ex_long_meta =
     [Elem (u ''meta'') [(u ''property'', u ''og:description''), (u ''content'', replicate 201 120)] []]"

definition ex_empty_p_article :: "node list" where
  "ex_empty_p_article =
     [Elem (u ''h1'') [] [Text (u ''Hello'')],
      Elem (u ''p'') [] [],
      Elem (u ''p'') [] [Text (u ''First words.'')]]"

definition ex_empty_p_cleaned :: "node list" where
  "ex_empty_p_cleaned =
     [Elem (u ''h1'') [] [Text (u ''Hello'')],
      Elem (u ''p'') [] [Text (u ''First words.'')]]"

definition ex_empty_og_meta :: "node list" where
  "ex_empty_og_meta =
     [Elem (u ''meta'') [(u ''property'', u ''og:description''), (u ''content'', [])] [],
      Elem (u ''meta'') [(u ''name'', u ''description''), (u ''content'', u ''A described post'')] []]"

definition ex_bang_article :: "node list" where
  "ex_bang_article =
     [Elem (u ''h1'') [] [Text (u ''!!!'')],
      Elem (u ''p'') [] [Text (u ''First words.'')]]"

text \<open>
  A site. Its listing links to four posts and has a marker of a next page, and it is
  served for every page number asked. The first post does not exist, the second is no
  markup the parser accepts, the third has no content region, the fourth is a post with
  an image.
\<close>

definition ex_listing :: node where
  "ex_listing =
     Elem (u ''[document]'') []
       [Elem (u ''a'') [(u ''href'', u ''/blog/missing'')] [Text (u ''Missing'')],
        Elem (u ''a'') [(u ''href'', u ''/blog/broken'')] [Text (u ''Broken'')],
        Elem (u ''a'') [(u ''href'', u ''/blog/bare'')] [Text (u ''Bare'')],
        Elem (u ''a'') [(u ''href'', u ''/blog/hello'')] [Text (u ''Hello'')],
        Elem (u ''a'') [(u ''class'', u ''next''), (u ''href'', u ''?page=2'')] [Text (u ''Next'')]]"

definition ex_bare_doc :: node where
  "ex_bare_doc = Elem (u ''[document]'') [] [Elem (u ''div'') [] [Text (u ''Nothing here'')]]"

definition ex_site_lib :: lib where
  "ex_site_lib =
     ex_lib [ex_listing, ex_bare_doc, ex_post_doc [] ex_hello_article, ex_fragment ex_hello_article]"

definition ex_site_pages :: "(pystr \<times> pystr) list" where
  "ex_site_pages =
     [(u ''https://postgrespro.com/blog/broken'', u ''<<<''),
      (u ''https://postgrespro.com/blog/bare'', render ex_bare_doc),
      (u ''https://postgrespro.com/blog/hello'', render (ex_post_doc [] ex_hello_article)),
      (u ''https://postgrespro.com/img/a.png'', [137, 80, 78, 71])]"

definition ex_site :: world where
  "ex_site =
     (ex_world ex_site_pages)
       \<lparr> http_get := (\<lambda>url. if url = BASE_URL \<or> starts_with url (BASE_URL @ u ''?page='')
                             then Inr (render ex_listing)
                             else http_get (ex_world ex_site_pages) url) \<rparr>"

text \<open>The post that the scraper makes of the fourth page.\<close>

definition ex_hello_post :: post where
  "ex_hello_post =
     make_post (u ''Hello'') (u ''hello'') (u ''2024-01-01T00:00:00'') (u ''Postgres Pro'')
       (u ''PostgreSQL'') [] (u ''https://postgrespro.com/blog/hello'') (u ''First words.'')
       (render (ex_fragment ex_hello_article)) 1 [u ''https://postgrespro.com/img/a.png'']"

section \<open>Properties of the string primitives\<close>

lemma set_re_collapse: "x \<in> set (re_collapse C s) \<Longrightarrow> x = hyphen \<or> (x \<in> set s \<and> \<not> C x)"
  by (induction C s rule: re_collapse.induct) (auto split: if_splits dest: set_dropWhileD)

lemma re_collapse_id: "\<forall>c\<in>set s. \<not> C c \<Longrightarrow> re_collapse C s = s"
  by (induction s) auto

lemma no_double_hyphen_Cons:
  "no_double_hyphen (c # r) \<longleftrightarrow> (c = hyphen \<longrightarrow> r = [] \<or> hd r \<noteq> hyphen) \<and> no_double_hyphen r"
  by (cases r) auto

lemma hd_re_collapse:
  "s \<noteq> [] \<Longrightarrow> \<not> C (hd s) \<Longrightarrow> re_collapse C s \<noteq> [] \<and> hd (re_collapse C s) = hd s"
  by (cases s) auto

lemma no_double_re_collapse:
  "C hyphen \<Longrightarrow> no_double_hyphen (re_collapse C s)"
proof (induction C s rule: re_collapse.induct)
  case (1 C)
  then show ?case by simp
next
  case (2 C c cs)
  show ?case
  proof (cases "C c")
    case True
    let ?d = "dropWhile C cs"
    have nd: "no_double_hyphen (re_collapse C ?d)" using 2 True by simp
    have "re_collapse C ?d = [] \<or> hd (re_collapse C ?d) \<noteq> hyphen"
    proof (cases "?d = []")
      case True then show ?thesis by (simp only: re_collapse.simps simp_thms)
    next
      case False
      then have "\<not> C (hd ?d)" by (rule hd_dropWhile)
      with False hd_re_collapse[of ?d C] 2(3) show ?thesis by auto
    qed
    with nd True show ?thesis by (simp add: no_double_hyphen_Cons)
  next
    case False
    with 2 have "c \<noteq> hyphen" by auto
    with 2 False show ?thesis by (simp add: no_double_hyphen_Cons)
  qed
qed

lemma re_collapse_hyphen_id:
  "no_double_hyphen s \<Longrightarrow> re_collapse (\<lambda>c. c = hyphen) s = s"
proof (induction s)
  case Nil
  then show ?case by simp
next
  case (Cons c cs)
  then have nd: "no_double_hyphen cs" and e: "c = hyphen \<longrightarrow> cs = [] \<or> hd cs \<noteq> hyphen"
    by (simp_all add: no_double_hyphen_Cons)
  show ?case
  proof (cases "c = hyphen")
    case True
    with e have "dropWhile (\<lambda>c. c = hyphen) cs = cs" by (cases cs) auto
    with True Cons.IH nd show ?thesis by simp
  next
    case False
    with Cons.IH nd show ?thesis by simp
  qed
qed

lemma no_double_hyphen_drop: "no_double_hyphen s \<Longrightarrow> no_double_hyphen (drop k s)"
proof (induction s arbitrary: k)
  case Nil then show ?case by simp
next
  case (Cons a s)
  then show ?case by (cases k) (auto simp: no_double_hyphen_Cons)
qed

lemma no_double_hyphen_take: "no_double_hyphen s \<Longrightarrow> no_double_hyphen (take k s)"
proof (induction s arbitrary: k)
  case Nil then show ?case by simp
next
  case (Cons a s)
  show ?case
  proof (cases k)
    case 0 then show ?thesis by simp
  next
    case (Suc j)
    from Cons have nd: "no_double_hyphen (take j s)" by (simp add: no_double_hyphen_Cons)
    have "take j s = [] \<or> hd (take j s) = hd s" by (cases s; cases j) auto
    moreover have "take j s \<noteq> [] \<Longrightarrow> s \<noteq> []" by auto
    ultimately show ?thesis using Cons.prems nd Suc
      by (auto simp: no_double_hyphen_Cons)
  qed
qed

lemma strip_chars_take_drop:
  "\<exists>j k. strip_chars C s = take j (drop k s)"
proof -
  have "dropWhile C s = drop (length (takeWhile C s)) s" by (rule dropWhile_eq_drop)
  moreover have "rev (dropWhile C (rev t)) = take (length t - length (takeWhile C (rev t))) t" for t
    by (simp add: dropWhile_eq_drop rev_drop)
  ultimately show ?thesis unfolding strip_chars_def by metis
qed

lemma no_double_hyphen_strip: "no_double_hyphen s \<Longrightarrow> no_double_hyphen (strip_chars C s)"
  using strip_chars_take_drop[of C s] by (auto simp: no_double_hyphen_take no_double_hyphen_drop)

lemma set_strip_chars: "set (strip_chars C s) \<subseteq> set s"
proof -
  obtain j k where "strip_chars C s = take j (drop k s)"
    using strip_chars_take_drop[of C s] by blast
  then show ?thesis by (metis in_set_takeD in_set_dropD subsetI)
qed

lemma strip_chars_id: "s = [] \<or> (\<not> C (hd s) \<and> \<not> C (last s)) \<Longrightarrow> strip_chars C s = s"
proof (cases s)
  case Nil then show ?thesis by (simp add: strip_chars_def)
next
  case (Cons a as)
  assume "s = [] \<or> (\<not> C (hd s) \<and> \<not> C (last s))"
  with Cons have a: "\<not> C a" and l: "\<not> C (last s)" by auto
  from a Cons have 1: "dropWhile C s = s" by simp
  from Cons have "rev s \<noteq> []" and "hd (rev s) = last s" by (simp_all add: hd_rev)
  then obtain bs where "rev s = last s # bs" by (cases "rev s") auto
  with l have "dropWhile C (rev s) = rev s" by (simp only: dropWhile.simps if_False)
  with 1 show ?thesis by (simp add: strip_chars_def)
qed

lemma strip_chars_edges:
  "strip_chars C s = [] \<or> (\<not> C (hd (strip_chars C s)) \<and> \<not> C (last (strip_chars C s)))"
proof -
  let ?t = "dropWhile C s"
  let ?r = "dropWhile C (rev ?t)"
  show ?thesis
  proof (cases "?r = []")
    case True then show ?thesis by (simp add: strip_chars_def)
  next
    case False
    then have h: "\<not> C (hd ?r)" by (rule hd_dropWhile)
    have "?t = [] \<Longrightarrow> ?r = []" by (simp only: rev.simps dropWhile.simps)
    with False have tne: "?t \<noteq> []" by blast
    then have ht: "\<not> C (hd ?t)" by (rule hd_dropWhile)
    have "?r = drop (length (takeWhile C (rev ?t))) (rev ?t)" by (rule dropWhile_eq_drop)
    with False have "last ?r = last (rev ?t)" by (metis drop_eq_Nil last_drop not_le)
    with tne have "last ?r = hd ?t" by (simp add: last_rev)
    with h ht False show ?thesis by (simp add: strip_chars_def hd_rev last_rev)
  qed
qed

lemma starts_with_single: "starts_with s [c] \<longleftrightarrow> s \<noteq> [] \<and> hd s = c"
  by (cases s) (auto simp: starts_with_def)

lemma ends_with_single: "ends_with s [c] \<longleftrightarrow> s \<noteq> [] \<and> last s = c"
  by (simp add: ends_with_def starts_with_single hd_rev)

lemma generate_slug_chars: "list_all is_slug_char (generate_slug U x)"
proof -
  have "is_slug_char c" if "c \<in> set (generate_slug U x)" for c
  proof -
    from that have "c \<in> set (re_collapse (\<lambda>c. c = hyphen) (re_collapse is_space
      (filter (\<lambda>c. is_az c \<or> is_09 c \<or> is_space c \<or> c = hyphen)
        (replace_char 231 99 (replace_char 246 111 (replace_char 305 105
          (replace_char 351 115 (replace_char 252 117 (replace_char 287 103 (str_lower U x))))))))))"
      (is "c \<in> set (re_collapse _ (re_collapse _ (filter ?K ?s)))")
      using set_strip_chars[of "\<lambda>c. c = hyphen"] by (auto simp: generate_slug_def Let_def)
    then have "c = hyphen \<or> c \<in> set (re_collapse is_space (filter ?K ?s))"
      by (auto dest: set_re_collapse)
    then have "c = hyphen \<or> (c \<in> set (filter ?K ?s) \<and> \<not> is_space c)"
      by (auto dest: set_re_collapse)
    then show ?thesis by (auto simp: is_slug_char_def)
  qed
  then show ?thesis by (simp add: list_all_iff)
qed

lemma generate_slug_no_double: "no_double_hyphen (generate_slug U x)"
  by (simp add: generate_slug_def Let_def no_double_hyphen_strip no_double_re_collapse)

lemma generate_slug_edges:
  "generate_slug U x = [] \<or> (hd (generate_slug U x) \<noteq> hyphen \<and> last (generate_slug U x) \<noteq> hyphen)"
  using strip_chars_edges[of "\<lambda>c. c = hyphen"] by (simp add: generate_slug_def Let_def)

lemma is_slug_char_facts:
  "is_slug_char c \<Longrightarrow> c \<noteq> 287 \<and> c \<noteq> 252 \<and> c \<noteq> 351 \<and> c \<noteq> 305 \<and> c \<noteq> 246 \<and> c \<noteq> 231 \<and> \<not> is_space c"
  by (auto simp: is_slug_char_def is_az_def is_09_def hyphen_def is_space_def)

lemma replace_char_absent: "a \<notin> set s \<Longrightarrow> replace_char a b s = s"
  by (induction s) (auto simp: replace_char_def)

lemma generate_slug_fixpoint:
  assumes lo: "str_lower U y = y" and ch: "list_all is_slug_char y"
    and nd: "no_double_hyphen y"
    and ed: "y = [] \<or> (hd y \<noteq> hyphen \<and> last y \<noteq> hyphen)"
  shows "generate_slug U y = y"
proof -
  from ch have f: "\<And>c. c \<in> set y \<Longrightarrow> is_slug_char c" by (simp add: list_all_iff)
  have r: "replace_char a b y = y" if "a \<in> {287, 252, 351, 305, 246, 231}" for a b
    using that f is_slug_char_facts by (intro replace_char_absent) blast
  have k: "filter (\<lambda>c. is_az c \<or> is_09 c \<or> is_space c \<or> c = hyphen) y = y"
    using f by (auto simp: is_slug_char_def intro: filter_True)
  have s: "re_collapse is_space y = y"
    using f is_slug_char_facts by (intro re_collapse_id) blast
  have h: "re_collapse (\<lambda>c. c = hyphen) y = y" using nd by (rule re_collapse_hyphen_id)
  have t: "strip_chars (\<lambda>c. c = hyphen) y = y" using ed by (intro strip_chars_id) simp
  show ?thesis by (simp add: generate_slug_def Let_def lo r k s h t)
qed

lemma latin_lower_fixes_slugs: "lower_fixes_slugs latin_db"
proof -
  have c: "latin_lower_cp c = [c]" if "is_slug_char c" for c
  proof -
    from that have "c \<le> 122" and "\<not> (65 \<le> c \<and> c \<le> 90)"
      by (auto simp: is_slug_char_def is_az_def is_09_def hyphen_def)
    then show ?thesis by (simp add: latin_lower_cp_def)
  qed
  have "concat (map latin_lower_cp s) = s" if "list_all is_slug_char s" for s
    using that by (induction s) (simp_all add: c)
  then show ?thesis by (simp add: lower_fixes_slugs_def latin_db_def)
qed

section \<open>Claims about the normalizer\<close>

text \<open>
  Claim C6. \<open>generate_slug\<close> is idempotent, its result has only characters of
  \<^verbatim>\<open>[a-z0-9-]\<close>, it neither starts nor ends with a hyphen, and the title
  "PostgreSQL \<open>S\<close>irket G\<open>u\<close>ncellemeleri!" (with U+015E and U+00FC) gives
  "postgresql-sirket-guncellemeleri". Idempotence uses one fact of \<^verbatim>\<open>str.lower\<close>:
  it leaves a string of \<^verbatim>\<open>[a-z0-9-]\<close> as it is.
\<close>

theorem generate_slug_idempotent_charset:
  "lower_fixes_slugs U \<Longrightarrow>
     generate_slug U (generate_slug U x) = generate_slug U x \<and>
     list_all is_slug_char (generate_slug U x) \<and>
     \<not> starts_with (generate_slug U x) [hyphen] \<and>
     \<not> ends_with (generate_slug U x) [hyphen] \<and>
     generate_slug latin_db (u ''PostgreSQL '' @ [350] @ u ''irket G'' @ [252] @ u ''ncellemeleri!'')
       = u ''postgresql-sirket-guncellemeleri''"
proof (intro conjI)
  assume "lower_fixes_slugs U"
  then have "str_lower U (generate_slug U x) = generate_slug U x"
    using generate_slug_chars[of U x] by (simp add: lower_fixes_slugs_def)
  then show "generate_slug U (generate_slug U x) = generate_slug U x"
    by (intro generate_slug_fixpoint generate_slug_chars generate_slug_no_double generate_slug_edges)
next
  show "list_all is_slug_char (generate_slug U x)" by (rule generate_slug_chars)
next
  show "\<not> starts_with (generate_slug U x) [hyphen]"
    using generate_slug_edges[of U x] by (auto simp: starts_with_single)
next
  show "\<not> ends_with (generate_slug U x) [hyphen]"
    using generate_slug_edges[of U x] by (auto simp: ends_with_single)
next
  show "generate_slug latin_db (u ''PostgreSQL '' @ [350] @ u ''irket G'' @ [252] @ u ''ncellemeleri!'')
       = u ''postgresql-sirket-guncellemeleri''"
    by code_simp
qed

theorem generate_slug_idempotent_charset_witness:
  "lower_fixes_slugs latin_db \<and>
   generate_slug latin_db (u ''  --Hello,   World - x-- '') = u ''hello-world-x'' \<and>
   generate_slug latin_db (generate_slug latin_db (u ''  --Hello,   World - x-- ''))
     = generate_slug latin_db (u ''  --Hello,   World - x-- '')"
proof -
  have e: "generate_slug latin_db (u ''  --Hello,   World - x-- '') = u ''hello-world-x''"
    by code_simp
  from generate_slug_idempotent_charset [OF latin_lower_fixes_slugs, of "u ''  --Hello,   World - x-- ''"]
  have "generate_slug latin_db (generate_slug latin_db (u ''  --Hello,   World - x-- ''))
     = generate_slug latin_db (u ''  --Hello,   World - x-- '')" by blast
  with e latin_lower_fixes_slugs show ?thesis by blast
qed

lemma ceil_div_200: "0 \<le> (w::int) \<Longrightarrow> (w + 199) div 200 = \<lceil>real_of_int w / 200\<rceil>"
proof -
  have "\<lceil>real_of_int w / real_of_int 200\<rceil> = - (- w div 200)" by (rule ceiling_divide_eq_div)
  then show ?thesis by simp
qed

lemma findall_word_step:
  "re_findall_runs (is_word latin_db) (u ''word '' @ r) = u ''word'' # re_findall_runs (is_word latin_db) r"
  by (simp add: u_def is_word_def latin_db_def latin_isalnum_def)

lemma findall_word_replicate:
  "length (re_findall_runs (is_word latin_db) (concat (replicate n (u ''word '')))) = n"
  by (induction n) (simp_all add: findall_word_step)

text \<open>
  Claim C7. \<open>calculate_reading_time\<close> is the ceiling of the number of word tokens
  divided by 200, and at least 1: 1 for up to 200 words, \<open>k + 1\<close> for more than
  \<open>200 k\<close> and at most \<open>200 (k + 1)\<close> words, and 3 for 450 times "word ".
\<close>

theorem calculate_reading_time_ceiling:
  "calculate_reading_time U text
     = max 1 \<lceil>real (length (re_findall_runs (is_word U) text)) / 200\<rceil> \<and>
   (length (re_findall_runs (is_word U) text) \<le> 200 \<longrightarrow> calculate_reading_time U text = 1) \<and>
   (\<forall>k. 200 * k < length (re_findall_runs (is_word U) text) \<and>
        length (re_findall_runs (is_word U) text) \<le> 200 * (k + 1)
        \<longrightarrow> calculate_reading_time U text = int k + 1) \<and>
   calculate_reading_time latin_db (concat (replicate 450 (u ''word ''))) = 3"
proof (intro conjI allI impI)
  let ?w = "length (re_findall_runs (is_word U) text)"
  show "calculate_reading_time U text = max 1 \<lceil>real ?w / 200\<rceil>"
    using ceil_div_200[of "int ?w"] by (simp add: calculate_reading_time_def Let_def)
  show "calculate_reading_time U text = 1" if "?w \<le> 200"
    using that by (simp add: calculate_reading_time_def Let_def)
  show "calculate_reading_time U text = int k + 1" if "200 * k < ?w \<and> ?w \<le> 200 * (k + 1)" for k
    using that by (simp add: calculate_reading_time_def Let_def) linarith
  show "calculate_reading_time latin_db (concat (replicate 450 (u ''word ''))) = 3"
    by (simp add: calculate_reading_time_def Let_def findall_word_replicate)
qed

theorem calculate_reading_time_ceiling_witness:
  "length (re_findall_runs (is_word latin_db) (u ''one two, three'')) = 3 \<and>
   calculate_reading_time latin_db (u ''one two, three'') = 1 \<and>
   200 * 2 < length (re_findall_runs (is_word latin_db) (concat (replicate 450 (u ''word '')))) \<and>
   length (re_findall_runs (is_word latin_db) (concat (replicate 450 (u ''word '')))) \<le> 200 * (2 + 1) \<and>
   calculate_reading_time latin_db (concat (replicate 450 (u ''word ''))) = int 2 + 1"
proof -
  have 1: "length (re_findall_runs (is_word latin_db) (u ''one two, three'')) = 3" by code_simp
  have 2: "length (re_findall_runs (is_word latin_db) (concat (replicate 450 (u ''word '')))) = 450"
    by (rule findall_word_replicate)
  from 1 calculate_reading_time_ceiling[of latin_db "u ''one two, three''"]
  have 3: "calculate_reading_time latin_db (u ''one two, three'') = 1" by simp
  from 2 calculate_reading_time_ceiling[of latin_db "concat (replicate 450 (u ''word ''))"]
  have 4: "calculate_reading_time latin_db (concat (replicate 450 (u ''word ''))) = int 2 + 1"
    by simp
  from 1 2 3 4 show ?thesis by simp
qed

lemma filter_re_collapse:
  "(\<And>c. P c \<Longrightarrow> \<not> C c) \<Longrightarrow> \<not> P hyphen \<Longrightarrow> filter P (re_collapse C s) = filter P s"
proof (induction C s rule: re_collapse.induct)
  case (1 C)
  then show ?case by simp
next
  case (2 C c cs)
  show ?case
  proof (cases "C c")
    case True
    have "filter P cs = filter P (takeWhile C cs @ dropWhile C cs)" by simp
    also have "\<dots> = filter P (dropWhile C cs)"
      using 2(3) by (simp del: takeWhile_dropWhile_id add: filter_empty_conv) (metis set_takeWhileD)
    finally have "filter P cs = filter P (dropWhile C cs)" .
    with True 2 show ?thesis by auto
  next
    case False
    with 2 show ?thesis by auto
  qed
qed

text \<open>
  Claim C4, the example as the claim has it: the dot before "png" is not a word
  character, so it is removed too, and the result is not "my-image-final.png".
\<close>

theorem sanitize_filename_example_counterexample:
  "sanitize_filename latin_db (u ''My Image (final)!.png'') \<noteq> u ''my-image-final.png''"
  by code_simp

text \<open>
  Claim C4, amended. After the first two substitutions the name has only hyphens and
  word characters, the word characters of the input in their order, and no two hyphens in
  a row; the result is its lower-case form without the hyphens at both ends; and
  "My Image (final)!.png" gives "my-image-finalpng".
\<close>

theorem sanitize_filename_behaviour:
  "list_all (\<lambda>c. c = hyphen \<or> is_word U c \<and> \<not> is_space c)
     (re_collapse (\<lambda>c. c = hyphen \<or> is_space c)
        (filter (\<lambda>c. is_word U c \<or> is_space c \<or> c = hyphen) s)) \<and>
   filter (\<lambda>c. is_word U c \<and> \<not> is_space c \<and> c \<noteq> hyphen)
     (re_collapse (\<lambda>c. c = hyphen \<or> is_space c)
        (filter (\<lambda>c. is_word U c \<or> is_space c \<or> c = hyphen) s))
     = filter (\<lambda>c. is_word U c \<and> \<not> is_space c \<and> c \<noteq> hyphen) s \<and>
   no_double_hyphen
     (re_collapse (\<lambda>c. c = hyphen \<or> is_space c)
        (filter (\<lambda>c. is_word U c \<or> is_space c \<or> c = hyphen) s)) \<and>
   sanitize_filename U s
     = strip_chars (\<lambda>c. c = hyphen) (str_lower U
         (re_collapse (\<lambda>c. c = hyphen \<or> is_space c)
            (filter (\<lambda>c. is_word U c \<or> is_space c \<or> c = hyphen) s))) \<and>
   \<not> starts_with (sanitize_filename U s) [hyphen] \<and>
   \<not> ends_with (sanitize_filename U s) [hyphen] \<and>
   sanitize_filename latin_db (u ''My Image (final)!.png'') = u ''my-image-finalpng''"
proof (intro conjI)
  let ?K = "\<lambda>c. is_word U c \<or> is_space c \<or> c = hyphen"
  let ?C = "\<lambda>c. c = hyphen \<or> is_space c"
  show "list_all (\<lambda>c. c = hyphen \<or> is_word U c \<and> \<not> is_space c) (re_collapse ?C (filter ?K s))"
    by (auto simp: list_all_iff dest: set_re_collapse)
  have "filter (\<lambda>c. is_word U c \<and> \<not> is_space c \<and> c \<noteq> hyphen) (re_collapse ?C (filter ?K s))
      = filter (\<lambda>c. is_word U c \<and> \<not> is_space c \<and> c \<noteq> hyphen) (filter ?K s)"
    by (rule filter_re_collapse) auto
  also have "\<dots> = filter (\<lambda>c. is_word U c \<and> \<not> is_space c \<and> c \<noteq> hyphen) s"
    by (simp add: conj_commute cong: conj_cong) (metis)
  finally show "filter (\<lambda>c. is_word U c \<and> \<not> is_space c \<and> c \<noteq> hyphen) (re_collapse ?C (filter ?K s))
      = filter (\<lambda>c. is_word U c \<and> \<not> is_space c \<and> c \<noteq> hyphen) s" .
  show "no_double_hyphen (re_collapse ?C (filter ?K s))"
    by (rule no_double_re_collapse) simp
  show "sanitize_filename U s = strip_chars (\<lambda>c. c = hyphen) (str_lower U (re_collapse ?C (filter ?K s)))"
    by (simp add: sanitize_filename_def Let_def)
  show "\<not> starts_with (sanitize_filename U s) [hyphen]"
    using strip_chars_edges[of "\<lambda>c. c = hyphen"]
    by (auto simp: starts_with_single sanitize_filename_def Let_def)
  show "\<not> ends_with (sanitize_filename U s) [hyphen]"
    using strip_chars_edges[of "\<lambda>c. c = hyphen"]
    by (auto simp: ends_with_single sanitize_filename_def Let_def)
  show "sanitize_filename latin_db (u ''My Image (final)!.png'') = u ''my-image-finalpng''"
    by code_simp
qed

section \<open>Claims about the image downloader\<close>

lemma basename_no_slash: "slash \<notin> set (basename p)"
  by (auto simp: basename_def dest: set_takeWhileD)

lemma basename_idem: "basename (basename p) = basename p"
proof -
  have "takeWhile (\<lambda>c. c \<noteq> slash) (rev (basename p)) = rev (basename p)"
    using basename_no_slash[of p] by (intro takeWhile_eq_all_conv[THEN iffD2]) auto
  then show ?thesis by (simp add: basename_def)
qed

lemma splitext_ext_basename: "splitext_ext (basename p) = splitext_ext p"
  by (simp add: splitext_ext_def basename_idem)

lemma image_filename_basename: "image_filename U (basename p) = image_filename U p"
  by (simp add: image_filename_def image_ext_def splitext_ext_basename basename_idem)

lemma image_ext_dot: "image_ext p \<noteq> [] \<and> hd (image_ext p) = dot"
  by (simp add: image_ext_def splitext_ext_def Let_def u_def dot_def)

lemma ends_with_set: "ends_with s p \<Longrightarrow> set p \<subseteq> set s"
proof -
  assume "ends_with s p"
  then have "take (length p) (rev s) = rev p" by (simp add: ends_with_def starts_with_def)
  then have "set (rev p) \<subseteq> set (rev s)" by (metis set_take_subset)
  then show ?thesis by simp
qed

lemma ends_with_append: "ends_with (a @ b) b"
  by (simp add: ends_with_def starts_with_def)

lemma sanitize_filename_dot_free:
  assumes "dot_free_tables U"
  shows "dot \<notin> set (sanitize_filename U s)"
proof -
  let ?t = "re_collapse (\<lambda>c. c = hyphen \<or> is_space c)
              (filter (\<lambda>c. is_word U c \<or> is_space c \<or> c = hyphen) s)"
  have nw: "\<not> is_word U dot" "\<not> is_space dot" "dot \<noteq> hyphen"
    using assms by (simp_all add: dot_free_tables_def is_word_def is_space_def dot_def hyphen_def)
  have "dot \<notin> set ?t"
  proof
    assume "dot \<in> set ?t"
    then have "dot = hyphen \<or> dot \<in> set (filter (\<lambda>c. is_word U c \<or> is_space c \<or> c = hyphen) s)"
      by (auto dest: set_re_collapse)
    with nw show False by auto
  qed
  with assms have "dot \<notin> set (str_lower U ?t)" by (simp add: dot_free_tables_def)
  then show ?thesis
    using set_strip_chars[of "\<lambda>c. c = hyphen" "str_lower U ?t"]
    by (auto simp: sanitize_filename_def Let_def)
qed

lemma image_filename_appends:
  assumes "dot_free_tables U"
  shows "image_filename U p
         = (if sanitize_filename U (basename p) = [] then u ''image''
            else sanitize_filename U (basename p)) @ image_ext p"
proof -
  let ?stem = "if sanitize_filename U (basename p) = [] then u ''image''
               else sanitize_filename U (basename p)"
  have "dot \<notin> set (u ''image'')" by (simp add: u_def dot_def)
  with sanitize_filename_dot_free[OF assms] have "dot \<notin> set ?stem" by simp
  moreover have "dot \<in> set (image_ext p)"
    using image_ext_dot[of p] by (cases "image_ext p") auto
  ultimately have "\<not> ends_with ?stem (image_ext p)" using ends_with_set by blast
  then show ?thesis by (simp add: image_filename_def Let_def)
qed

lemma latin_lower_cp_dot: "dot \<in> set (latin_lower_cp c) \<Longrightarrow> c = dot"
proof (cases "c < 65")
  case True
  assume "dot \<in> set (latin_lower_cp c)"
  with True show ?thesis by (simp add: latin_lower_cp_def)
next
  case False
  assume d: "dot \<in> set (latin_lower_cp c)"
  have "\<forall>x\<in>set (latin_lower_cp c). 65 \<le> x" using False by (simp add: latin_lower_cp_def)
  with d show ?thesis by (auto simp: dot_def)
qed

lemma latin_dot_free: "dot_free_tables latin_db"
proof -
  have "dot \<notin> set (concat (map latin_lower_cp s))" if "dot \<notin> set s" for s
    using that latin_lower_cp_dot by auto
  then show ?thesis by (simp add: dot_free_tables_def latin_db_def latin_isalnum_def dot_def)
qed

lemma download_image_SomeD:
  assumes "download_image L W img_url slug = (out, files, Some r)"
  shows "\<exists>parsed_path. urlparse_path L img_url = Inr parsed_path \<and>
           r = u ''/blog/'' @ slug @ [slash] @ image_filename (unicode L) parsed_path"
  using assms
  by (auto simp: download_image_def download_body_def bind_exn_def Let_def
           split: sum.splits if_splits prod.splits)

text \<open>
  Claim C10. A call of \<open>download_image\<close> that succeeds returns
  \<^verbatim>\<open>/blog/<slug>/<filename>\<close>; the file name is the sanitized base name of the URL
  path ("image" if that is empty) followed by the extension of the path (".jpg" if it has
  none), so it is not empty and ends with the extension. The extension is appended in
  every case, because the sanitized name has no full stop: a base name "img.png" gives
  "imgpng.png".
\<close>

theorem download_image_returned_path:
  "dot_free_tables (unicode L) \<Longrightarrow> download_image L W img_url slug = (out, files, Some r) \<Longrightarrow>
     (\<exists>parsed_path.
        urlparse_path L img_url = Inr parsed_path \<and>
        r = u ''/blog/'' @ slug @ [slash] @ image_filename (unicode L) parsed_path \<and>
        image_filename (unicode L) parsed_path
          = (if sanitize_filename (unicode L) (basename parsed_path) = [] then u ''image''
             else sanitize_filename (unicode L) (basename parsed_path)) @ image_ext parsed_path \<and>
        image_filename (unicode L) parsed_path \<noteq> [] \<and>
        ends_with (image_filename (unicode L) parsed_path) (image_ext parsed_path) \<and>
        image_ext parsed_path
          = (if splitext_ext parsed_path = [] then u ''.jpg'' else splitext_ext parsed_path)) \<and>
     (basename p = u ''img.png'' \<longrightarrow> image_filename latin_db p = u ''imgpng.png'')"
proof (intro conjI impI)
  assume t: "dot_free_tables (unicode L)"
    and d: "download_image L W img_url slug = (out, files, Some r)"
  from download_image_SomeD[OF d] obtain parsed_path where
    p: "urlparse_path L img_url = Inr parsed_path"
    and r: "r = u ''/blog/'' @ slug @ [slash] @ image_filename (unicode L) parsed_path" by blast
  note a = image_filename_appends[OF t, of parsed_path]
  have ne: "image_filename (unicode L) parsed_path \<noteq> []"
    using image_ext_dot[of parsed_path] by (simp add: a)
  have e: "ends_with (image_filename (unicode L) parsed_path) (image_ext parsed_path)"
    unfolding a by (rule ends_with_append)
  from p r a ne e show "\<exists>parsed_path.
        urlparse_path L img_url = Inr parsed_path \<and>
        r = u ''/blog/'' @ slug @ [slash] @ image_filename (unicode L) parsed_path \<and>
        image_filename (unicode L) parsed_path
          = (if sanitize_filename (unicode L) (basename parsed_path) = [] then u ''image''
             else sanitize_filename (unicode L) (basename parsed_path)) @ image_ext parsed_path \<and>
        image_filename (unicode L) parsed_path \<noteq> [] \<and>
        ends_with (image_filename (unicode L) parsed_path) (image_ext parsed_path) \<and>
        image_ext parsed_path
          = (if splitext_ext parsed_path = [] then u ''.jpg'' else splitext_ext parsed_path)"
    by (intro exI[of _ parsed_path] conjI) (simp_all add: image_ext_def)
next
  assume b: "basename p = u ''img.png''"
  have "image_filename latin_db (u ''img.png'') = u ''imgpng.png''" by code_simp
  with b image_filename_basename[of latin_db p] show "image_filename latin_db p = u ''imgpng.png''"
    by simp
qed

theorem download_image_returned_path_witness:
  "dot_free_tables (unicode ex_site_lib) \<and>
   download_image ex_site_lib ex_site (u ''https://postgrespro.com/img/a.png'') (u ''hello'')
     = ([], [(u ''Postgrespro.tr/wwwroot/blog/hello/apng.png'', [137, 80, 78, 71])],
        Some (u ''/blog/hello/apng.png'')) \<and>
   urlparse_path ex_site_lib (u ''https://postgrespro.com/img/a.png'') = Inr (u ''/img/a.png'') \<and>
   image_filename (unicode ex_site_lib) (u ''/img/a.png'') = u ''apng'' @ image_ext (u ''/img/a.png'') \<and>
   basename (u ''/media/img.png'') = u ''img.png'' \<and>
   image_filename latin_db (u ''/media/img.png'') = u ''imgpng.png''"
proof -
  have t: "dot_free_tables (unicode ex_site_lib)"
    by (simp add: ex_site_lib_def ex_lib_def latin_dot_free)
  have d: "download_image ex_site_lib ex_site (u ''https://postgrespro.com/img/a.png'') (u ''hello'')
     = ([], [(u ''Postgrespro.tr/wwwroot/blog/hello/apng.png'', [137, 80, 78, 71])],
        Some (u ''/blog/hello/apng.png''))" by code_simp
  have p: "urlparse_path ex_site_lib (u ''https://postgrespro.com/img/a.png'') = Inr (u ''/img/a.png'')"
    by code_simp
  have s: "sanitize_filename (unicode ex_site_lib) (basename (u ''/img/a.png'')) = u ''apng''"
    by code_simp
  have b: "basename (u ''/media/img.png'') = u ''img.png''" by code_simp
  from download_image_returned_path[OF t d, of "u ''/media/img.png''"] p s b
  show ?thesis using t d by (auto simp: u_def)
qed

section \<open>Claims about the post extractor and the orchestrator\<close>

lemma scrape_body_SomeD:
  assumes "scrape_body L W url = Inr (Some post)"
  shows "\<exists>response_text soup content_path content_elem content_html images.
           http_get W url = Inr response_text \<and>
           bs_parse L response_text = Inr soup \<and>
           find_content soup = Some (content_path, content_elem) \<and>
           clean_html_content L (bs_str L (strip_unwanted content_elem)) = Inr content_html \<and>
           extract_images L content_html url = Inr images \<and>
           post = make_post (extract_title soup) (generate_slug (unicode L) (extract_title soup))
                    (extract_date L W url soup) (extract_author soup) (extract_category soup)
                    (extract_tags soup) url
                    (extract_excerpt (map_at (\<lambda>_. strip_unwanted content_elem) content_path soup)
                       (strip_unwanted content_elem))
                    content_html
                    (calculate_reading_time (unicode L) (get_text (strip_unwanted content_elem)))
                    images"
  using assms
  by (auto simp: scrape_body_def bind_exn_def Let_def split: sum.splits option.splits prod.splits)

lemma scrape_blog_post_SomeD:
  "scrape_blog_post L W url = (out, Some post) \<Longrightarrow>
     scrape_body L W url = Inr (Some post) \<and> out = [LogScraping url]"
  by (auto simp: scrape_blog_post_def split: sum.splits option.splits)

lemma make_post_keys:
  "map fst (make_post title slug date author category tags url excerpt content_html reading_time images)
     = post_keys"
  by (simp add: make_post_def post_keys_def)

lemma make_post_flat:
  "list_all (\<lambda>(k, v). flat_value v)
     (make_post title slug date author category tags url excerpt content_html reading_time images)"
  by (simp add: make_post_def list_all_iff)

lemma make_post_slug:
  "map_of (make_post title slug date author category tags url excerpt content_html reading_time images)
     ''slug'' = Some (JStr slug)"
  by (simp add: make_post_def)

lemma make_post_excerpt:
  "map_of (make_post title slug date author category tags url excerpt content_html reading_time images)
     ''excerpt'' = Some (JStr excerpt)"
  by (simp add: make_post_def)

lemma make_post_images:
  "map_of (make_post title slug date author category tags url excerpt content_html reading_time images)
     ''images'' = Some (JList (map JStr images))"
  by (simp add: make_post_def)

lemma scraped_post_shape:
  assumes "scrape_blog_post L W url = (out, Some post)"
  shows "map fst post = post_keys \<and> list_all (\<lambda>(k, v). flat_value v) post \<and>
         map_of post ''slug'' = Some (JStr (post_slug post))"
proof -
  from scrape_blog_post_SomeD[OF assms] scrape_body_SomeD[of L W url post]
  obtain t s d a c g e h r i where "post = make_post t s d a c g url e h r i" by blast
  then show ?thesis
    by (simp add: make_post_keys make_post_flat make_post_slug post_slug_def)
qed

lemma process_urls_written:
  "(path, post) \<in> set (written (final_state (process_urls L W urls st))) \<Longrightarrow>
     (path, post) \<in> set (written st) \<or>
     (\<exists>url out. url \<in> set urls \<and> scrape_blog_post L W url = (out, Some post) \<and>
        path = path_join CONTENT_DIR (post_slug post @ u ''.json''))"
proof (induction urls arbitrary: st)
  case Nil
  then show ?case by simp
next
  case (Cons url urls)
  obtain printed r where s: "scrape_blog_post L W url = (printed, r)" by (cases "scrape_blog_post L W url")
  show ?case
  proof (cases r)
    case None
    with s Cons.prems
    have "(path, post) \<in> set (written (final_state (process_urls L W urls (st\<lparr>stdout := stdout st @ printed\<rparr>))))"
      by simp
    from Cons.IH[OF this] show ?thesis by auto
  next
    case (Some p)
    let ?jp = "path_join CONTENT_DIR (post_slug p @ u ''.json'')"
    show ?thesis
    proof (cases "fs_write W ?jp")
      case False
      with s Some Cons.prems show ?thesis by (simp add: Let_def)
    next
      case True
      let ?st = "st\<lparr>stdout := stdout st @ printed\<rparr>"
      let ?st' = "?st\<lparr>written := written ?st @ [(?jp, p)], scraped_count := scraped_count ?st + 1,
                        stdout := stdout ?st @ [LogSaved (post_slug p)]\<rparr>"
      from s Some True Cons.prems
      have "(path, post) \<in> set (written (final_state (process_urls L W urls ?st')))"
        by (simp add: Let_def)
      from Cons.IH[OF this] s Some show ?thesis by auto
    qed
  qed
qed

lemma main_written:
  assumes "main L W = Some res" and "(path, post) \<in> set (written (final_state res))"
  shows "\<exists>url out. scrape_blog_post L W url = (out, Some post) \<and>
           path = path_join CONTENT_DIR (post_slug post @ u ''.json'')"
proof (cases "\<not> fs_mkdir W CONTENT_DIR \<or> \<not> fs_mkdir W IMAGES_DIR")
  case True
  with assms show ?thesis by (auto simp: main_def Let_def)
next
  case False
  with assms obtain printed blog_urls where
    f: "find_all_blog_links L W BASE_URL = Some (printed, blog_urls)"
    by (auto simp: main_def Let_def split: option.splits)
  let ?st = "\<lparr>stdout = [LogStarting], written = [], scraped_count = 0\<rparr>
               \<lparr>stdout := [LogStarting] @ [LogFinding] @ printed @ [LogFound (length blog_urls)]\<rparr>"
  let ?r = "process_urls L W (set_iter L blog_urls) ?st"
  from assms False f
  have "res = (case ?r of Inl failure \<Rightarrow> Inl failure
               | Inr st \<Rightarrow> Inr (st\<lparr>stdout := stdout st @ [LogComplete (scraped_count st)]\<rparr>))"
    by (simp add: main_def Let_def)
  then have "written (final_state res) = written (final_state ?r)"
    by (cases ?r) auto
  with assms(2) have "(path, post) \<in> set (written (final_state ?r))" by simp
  from process_urls_written[OF this] show ?thesis by auto
qed

text \<open>
  Claim C2, amended. Every post that \<open>main\<close> writes is a flat object whose keys are
  exactly \<open>title\<close>, \<open>titleTr\<close>, \<open>slug\<close>, \<open>date\<close>, \<open>author\<close>, \<open>category\<close>,
  \<open>categoryTr\<close>, \<open>tags\<close>, \<open>tagsTr\<close>, \<open>sourceUrl\<close>, \<open>canonicalUrl\<close>, \<open>excerpt\<close>,
  \<open>excerptTr\<close>, \<open>content\<close>, \<open>contentTr\<close>, \<open>readingTime\<close>, \<open>heroImage\<close>, \<open>images\<close>
  and \<open>published\<close>, in this order; it is written to the file named after its slug.
\<close>

theorem persisted_post_fields:
  "main L W = Some res \<Longrightarrow> (path, post) \<in> set (written (final_state res)) \<Longrightarrow>
     map fst post = post_keys \<and> list_all (\<lambda>(k, v). flat_value v) post \<and>
     (\<exists>slug. map_of post ''slug'' = Some (JStr slug) \<and>
        path = path_join CONTENT_DIR (slug @ u ''.json''))"
proof -
  assume "main L W = Some res" and "(path, post) \<in> set (written (final_state res))"
  from main_written[OF this] obtain url out where
    s: "scrape_blog_post L W url = (out, Some post)"
    and p: "path = path_join CONTENT_DIR (post_slug post @ u ''.json'')" by blast
  from scraped_post_shape[OF s] p show ?thesis by blast
qed

lemma ex_scrape_hello:
  "scrape_blog_post ex_site_lib ex_site (u ''https://postgrespro.com/blog/hello'')
     = ([LogScraping (u ''https://postgrespro.com/blog/hello'')], Some ex_hello_post)"
  by code_simp

lemma ex_main_written:
  "run_written (main ex_site_lib ex_site)
     = [(u ''Postgrespro.tr/wwwroot/content/blog/hello.json'', ex_hello_post)]"
  by code_simp

lemma ex_main_completed: "completed (main ex_site_lib ex_site)"
  by code_simp

lemma completedE:
  assumes "completed r"
  obtains st where "r = Some (Inr st)"
  using assms by (cases r rule: completed.cases) auto

text \<open>
  Claim C2, as the claim has it: the post saved for the example site has the keys of
  \<open>post_keys\<close>, with \<open>titleTr\<close> where the claim has \<open>titleTranslated\<close>, and so for
  the other four translated fields.
\<close>

theorem persisted_post_fields_counterexample:
  "map (map fst) (map snd (run_written (main ex_site_lib ex_site))) = [post_keys] \<and>
   post_keys \<noteq> spec_post_keys"
proof
  show "map (map fst) (map snd (run_written (main ex_site_lib ex_site))) = [post_keys]"
    by (simp add: ex_main_written ex_hello_post_def make_post_keys)
  show "post_keys \<noteq> spec_post_keys" by (simp add: post_keys_def spec_post_keys_def)
qed

theorem persisted_post_fields_witness:
  "(u ''Postgrespro.tr/wwwroot/content/blog/hello.json'', ex_hello_post)
     \<in> set (run_written (main ex_site_lib ex_site)) \<and>
   map fst ex_hello_post = post_keys \<and>
   list_all (\<lambda>(k, v). flat_value v) ex_hello_post \<and>
   map_of ex_hello_post ''slug'' = Some (JStr (u ''hello''))"
proof -
  from ex_main_completed obtain st where m: "main ex_site_lib ex_site = Some (Inr st)"
    by (rule completedE)
  with ex_main_written
  have w: "(u ''Postgrespro.tr/wwwroot/content/blog/hello.json'', ex_hello_post)
             \<in> set (written (final_state (Inr st)))"
    by (simp add: run_written_def)
  from persisted_post_fields[OF m w] w m
  show ?thesis by (auto simp: run_written_def ex_hello_post_def make_post_slug)
qed

text \<open>
  Claim C5, amended. The excerpt of a post is \<open>extract_excerpt\<close> of the document and
  its content region. It is the \<^verbatim>\<open>content\<close> of the first \<^verbatim>\<open>og:description\<close> meta
  tag, or, where there is no such tag, of the first \<^verbatim>\<open>description\<close> meta tag, taken
  whole; where that is empty or absent it is the text of the first paragraph of the
  content region cut to 200 characters (the empty string if there is no paragraph), and
  only then is its length bounded by 200.
\<close>

theorem excerpt_sources:
  "scrape_blog_post L W url = (out, Some post) \<Longrightarrow>
     (\<exists>response_text soup content_path content_elem.
        http_get W url = Inr response_text \<and>
        bs_parse L response_text = Inr soup \<and>
        find_content soup = Some (content_path, content_elem) \<and>
        map_of post ''excerpt''
          = Some (JStr (extract_excerpt
                          (map_at (\<lambda>_. strip_unwanted content_elem) content_path soup)
                          (strip_unwanted content_elem)))) \<and>
     meta_excerpt s
       = (case soup_find (\<lambda>n. name_is (u ''meta'') n \<and>
                               attr_is (u ''property'') (u ''og:description'') n) s of
            Some e \<Rightarrow> (case get_attr e (u ''content'') of Some v \<Rightarrow> v | None \<Rightarrow> [])
          | None \<Rightarrow>
              (case soup_find (\<lambda>n. name_is (u ''meta'') n \<and>
                                   attr_is (u ''name'') (u ''description'') n) s of
                 Some e \<Rightarrow> (case get_attr e (u ''content'') of Some v \<Rightarrow> v | None \<Rightarrow> [])
               | None \<Rightarrow> [])) \<and>
     (meta_excerpt s \<noteq> [] \<longrightarrow> extract_excerpt s c = meta_excerpt s) \<and>
     (meta_excerpt s = [] \<longrightarrow>
        extract_excerpt s c
          = (case soup_find (name_is (u ''p'')) c of
               Some first_p \<Rightarrow> take 200 (get_text_strip first_p)
             | None \<Rightarrow> []) \<and>
        length (extract_excerpt s c) \<le> 200)"
proof (intro conjI impI)
  assume a: "scrape_blog_post L W url = (out, Some post)"
  from scrape_blog_post_SomeD[OF a] scrape_body_SomeD[of L W url post]
  obtain response_text soup content_path content_elem content_html images where
    "http_get W url = Inr response_text" "bs_parse L response_text = Inr soup"
    "find_content soup = Some (content_path, content_elem)"
    "post = make_post (extract_title soup) (generate_slug (unicode L) (extract_title soup))
                    (extract_date L W url soup) (extract_author soup) (extract_category soup)
                    (extract_tags soup) url
                    (extract_excerpt (map_at (\<lambda>_. strip_unwanted content_elem) content_path soup)
                       (strip_unwanted content_elem))
                    content_html
                    (calculate_reading_time (unicode L) (get_text (strip_unwanted content_elem)))
                    images"
    by blast
  then show "\<exists>response_text soup content_path content_elem.
        http_get W url = Inr response_text \<and>
        bs_parse L response_text = Inr soup \<and>
        find_content soup = Some (content_path, content_elem) \<and>
        map_of post ''excerpt''
          = Some (JStr (extract_excerpt
                          (map_at (\<lambda>_. strip_unwanted content_elem) content_path soup)
                          (strip_unwanted content_elem)))"
    by (simp add: make_post_excerpt)
next
  show "meta_excerpt s
       = (case soup_find (\<lambda>n. name_is (u ''meta'') n \<and>
                               attr_is (u ''property'') (u ''og:description'') n) s of
            Some e \<Rightarrow> (case get_attr e (u ''content'') of Some v \<Rightarrow> v | None \<Rightarrow> [])
          | None \<Rightarrow>
              (case soup_find (\<lambda>n. name_is (u ''meta'') n \<and>
                                   attr_is (u ''name'') (u ''description'') n) s of
                 Some e \<Rightarrow> (case get_attr e (u ''content'') of Some v \<Rightarrow> v | None \<Rightarrow> [])
               | None \<Rightarrow> []))"
    by (simp add: meta_excerpt_def split: option.splits)
next
  assume "meta_excerpt s \<noteq> []"
  then show "extract_excerpt s c = meta_excerpt s" by (simp add: extract_excerpt_def Let_def)
next
  assume e: "meta_excerpt s = []"
  then show "extract_excerpt s c
          = (case soup_find (name_is (u ''p'')) c of
               Some first_p \<Rightarrow> take 200 (get_text_strip first_p)
             | None \<Rightarrow> [])"
    by (simp add: extract_excerpt_def Let_def split: option.splits)
  from e show "length (extract_excerpt s c) \<le> 200"
    by (simp add: extract_excerpt_def Let_def split: option.splits)
qed

text \<open>
  Claim C5, as the claim has it: a description of 201 characters is the excerpt, whole;
  an empty first paragraph gives the empty excerpt although a paragraph with text
  follows; and an \<^verbatim>\<open>og:description\<close> tag with empty content hides the
  \<^verbatim>\<open>description\<close> tag, so that the paragraph is taken.
\<close>

theorem excerpt_sources_counterexample:
  "scraped_field ''excerpt''
     (scrape_blog_post (ex_page_lib ex_long_meta ex_hello_article ex_hello_article)
        (ex_page_world ex_url ex_long_meta ex_hello_article) ex_url)
     = Some (JStr (replicate 201 120)) \<and>
   length (replicate 201 (120 :: cp)) = 201 \<and>
   scraped_field ''excerpt''
     (scrape_blog_post (ex_page_lib [] ex_empty_p_article ex_empty_p_cleaned)
        (ex_page_world ex_url [] ex_empty_p_article) ex_url)
     = Some (JStr []) \<and>
   scraped_field ''excerpt''
     (scrape_blog_post (ex_page_lib ex_empty_og_meta ex_hello_article ex_hello_article)
        (ex_page_world ex_url ex_empty_og_meta ex_hello_article) ex_url)
     = Some (JStr (u ''First words.''))"
proof (intro conjI)
  show "scraped_field ''excerpt''
     (scrape_blog_post (ex_page_lib ex_long_meta ex_hello_article ex_hello_article)
        (ex_page_world ex_url ex_long_meta ex_hello_article) ex_url)
     = Some (JStr (replicate 201 120))" by code_simp
  show "length (replicate 201 (120 :: cp)) = 201" by simp
  show "scraped_field ''excerpt''
     (scrape_blog_post (ex_page_lib [] ex_empty_p_article ex_empty_p_cleaned)
        (ex_page_world ex_url [] ex_empty_p_article) ex_url)
     = Some (JStr [])" by code_simp
  show "scraped_field ''excerpt''
     (scrape_blog_post (ex_page_lib ex_empty_og_meta ex_hello_article ex_hello_article)
        (ex_page_world ex_url ex_empty_og_meta ex_hello_article) ex_url)
     = Some (JStr (u ''First words.''))" by code_simp
qed

theorem excerpt_sources_witness:
  "scrape_blog_post ex_site_lib ex_site (u ''https://postgrespro.com/blog/hello'')
     = ([LogScraping (u ''https://postgrespro.com/blog/hello'')], Some ex_hello_post) \<and>
   map_of ex_hello_post ''excerpt'' = Some (JStr (u ''First words.'')) \<and>
   meta_excerpt (ex_post_doc [] ex_hello_article) = [] \<and>
   extract_excerpt (ex_post_doc [] ex_hello_article) (Elem (u ''article'') [] ex_hello_article)
     = u ''First words.'' \<and>
   length (extract_excerpt (ex_post_doc [] ex_hello_article) (Elem (u ''article'') [] ex_hello_article))
     \<le> 200 \<and>
   meta_excerpt (ex_post_doc ex_long_meta ex_hello_article) = replicate 201 120 \<and>
   extract_excerpt (ex_post_doc ex_long_meta ex_hello_article) (Elem (u ''article'') [] ex_hello_article)
     = replicate 201 120"
proof -
  have m0: "meta_excerpt (ex_post_doc [] ex_hello_article) = []" by code_simp
  have p0: "(case soup_find (name_is (u ''p'')) (Elem (u ''article'') [] ex_hello_article) of
               Some first_p \<Rightarrow> take 200 (get_text_strip first_p)
             | None \<Rightarrow> []) = u ''First words.''" by code_simp
  have m1: "meta_excerpt (ex_post_doc ex_long_meta ex_hello_article) = replicate 201 120"
    by code_simp
  have ne: "replicate 201 (120 :: cp) \<noteq> []" by simp
  have x: "map_of ex_hello_post ''excerpt'' = Some (JStr (u ''First words.''))"
    by (simp add: ex_hello_post_def make_post_excerpt)
  from excerpt_sources[OF ex_scrape_hello, of "ex_post_doc [] ex_hello_article"
      "Elem (u ''article'') [] ex_hello_article"] m0 p0
  have a: "extract_excerpt (ex_post_doc [] ex_hello_article) (Elem (u ''article'') [] ex_hello_article)
     = u ''First words.'' \<and>
     length (extract_excerpt (ex_post_doc [] ex_hello_article) (Elem (u ''article'') [] ex_hello_article))
     \<le> 200" by (simp add: u_def)
  from excerpt_sources[OF ex_scrape_hello, of "ex_post_doc ex_long_meta ex_hello_article"
      "Elem (u ''article'') [] ex_hello_article"] m1 ne
  have b: "extract_excerpt (ex_post_doc ex_long_meta ex_hello_article)
             (Elem (u ''article'') [] ex_hello_article) = replicate 201 120" by simp
  from ex_scrape_hello x m0 a m1 b show ?thesis by blast
qed

lemma process_urls_continues:
  assumes w: "\<forall>path. fs_write W path"
  shows "\<exists>st'. process_urls L W urls st = Inr st' \<and>
           scraped_count st'
             = scraped_count st
               + int (length (List.map_filter (\<lambda>url. snd (scrape_blog_post L W url)) urls)) \<and>
           map snd (written st')
             = map snd (written st) @ List.map_filter (\<lambda>url. snd (scrape_blog_post L W url)) urls"
proof (induction urls arbitrary: st)
  case Nil
  then show ?case by (simp add: List.map_filter_simps)
next
  case (Cons url urls)
  obtain printed r where s: "scrape_blog_post L W url = (printed, r)"
    by (cases "scrape_blog_post L W url")
  show ?case
  proof (cases r)
    case None
    from Cons.IH[of "st\<lparr>stdout := stdout st @ printed\<rparr>"] s None
    show ?thesis by (simp add: List.map_filter_simps)
  next
    case (Some p)
    let ?jp = "path_join CONTENT_DIR (post_slug p @ u ''.json'')"
    let ?st = "st\<lparr>stdout := stdout st @ printed\<rparr>"
    let ?st' = "?st\<lparr>written := written ?st @ [(?jp, p)], scraped_count := scraped_count ?st + 1,
                      stdout := stdout ?st @ [LogSaved (post_slug p)]\<rparr>"
    from w s Some have e: "process_urls L W (url # urls) st = process_urls L W urls ?st'"
      by (simp add: Let_def)
    from Cons.IH[of ?st'] obtain st' where
      1: "process_urls L W urls ?st' = Inr st'"
      and 2: "scraped_count st' = scraped_count ?st'
               + int (length (List.map_filter (\<lambda>url. snd (scrape_blog_post L W url)) urls))"
      and 3: "map snd (written st') = map snd (written ?st')
               @ List.map_filter (\<lambda>url. snd (scrape_blog_post L W url)) urls"
      by blast
    have m: "List.map_filter (\<lambda>url. snd (scrape_blog_post L W url)) (url # urls)
             = p # List.map_filter (\<lambda>url. snd (scrape_blog_post L W url)) urls"
      using s Some by (simp add: List.map_filter_simps)
    from 1 e have "process_urls L W (url # urls) st = Inr st'" by simp
    moreover from 2 have "scraped_count st' = scraped_count st
        + int (length (List.map_filter (\<lambda>url. snd (scrape_blog_post L W url)) (url # urls)))"
      unfolding m by simp
    moreover from 3 have "map snd (written st') = map snd (written st)
        @ List.map_filter (\<lambda>url. snd (scrape_blog_post L W url)) (url # urls)"
      unfolding m by simp
    ultimately show ?thesis by blast
  qed
qed

lemma process_urls_count:
  "process_urls L W urls st = Inr st' \<Longrightarrow>
     scraped_count st' - scraped_count st = int (length (written st')) - int (length (written st))"
proof (induction urls arbitrary: st)
  case Nil
  then show ?case by simp
next
  case (Cons url urls)
  obtain printed r where s: "scrape_blog_post L W url = (printed, r)"
    by (cases "scrape_blog_post L W url")
  show ?case
  proof (cases r)
    case None
    with s Cons.prems
    have "process_urls L W urls (st\<lparr>stdout := stdout st @ printed\<rparr>) = Inr st'" by simp
    from Cons.IH[OF this] show ?thesis by simp
  next
    case (Some p)
    let ?jp = "path_join CONTENT_DIR (post_slug p @ u ''.json'')"
    let ?st = "st\<lparr>stdout := stdout st @ printed\<rparr>"
    let ?st' = "?st\<lparr>written := written ?st @ [(?jp, p)], scraped_count := scraped_count ?st + 1,
                      stdout := stdout ?st @ [LogSaved (post_slug p)]\<rparr>"
    from s Some Cons.prems have "fs_write W ?jp"
      by (cases "fs_write W ?jp") (simp_all add: Let_def)
    with s Some Cons.prems have "process_urls L W urls ?st' = Inr st'" by (simp add: Let_def)
    from Cons.IH[OF this] show ?thesis by simp
  qed
qed

lemma main_reports_count:
  assumes "main L W = Some (Inr fin)"
  shows "last (stdout fin) = LogComplete (int (length (written fin)))"
proof -
  from assms have d: "\<not> (\<not> fs_mkdir W CONTENT_DIR \<or> \<not> fs_mkdir W IMAGES_DIR)"
    by (auto simp: main_def Let_def split: if_splits)
  with assms obtain printed blog_urls where
    f: "find_all_blog_links L W BASE_URL = Some (printed, blog_urls)"
    by (auto simp: main_def Let_def split: option.splits)
  let ?st = "\<lparr>stdout = [LogStarting], written = [], scraped_count = 0\<rparr>
               \<lparr>stdout := [LogStarting] @ [LogFinding] @ printed @ [LogFound (length blog_urls)]\<rparr>"
  let ?r = "process_urls L W (set_iter L blog_urls) ?st"
  from assms d f
  have "Inr fin = (case ?r of Inl failure \<Rightarrow> Inl failure
               | Inr st \<Rightarrow> Inr (st\<lparr>stdout := stdout st @ [LogComplete (scraped_count st)]\<rparr>))"
    by (simp add: main_def Let_def)
  then obtain st where r: "?r = Inr st"
    and fin: "fin = st\<lparr>stdout := stdout st @ [LogComplete (scraped_count st)]\<rparr>"
    by (cases ?r) auto
  from process_urls_count[OF r] have "scraped_count st = int (length (written st))" by simp
  with fin show ?thesis by simp
qed

text \<open>
  Claim C9. An exception in the extraction of a post, be it from the request or from the
  parser, ends in \<open>scrape_blog_post\<close> as a printed line and the value \<open>None\<close>, and so
  does a page without a content region. The loop of \<open>main\<close> then goes on: if the file
  system accepts the writes, it visits every URL, saves the posts of exactly the URLs that
  gave one, in their order, and counts them; the last line \<open>main\<close> prints is that count.
\<close>

theorem extraction_failures_are_isolated:
  "(scrape_body L W url = Inl e \<longrightarrow>
      scrape_blog_post L W url = ([LogScraping url, LogScrapeError url e], None)) \<and>
   (http_get W url = Inl e \<longrightarrow> scrape_body L W url = Inl e) \<and>
   (http_get W url = Inr response_text \<and> bs_parse L response_text = Inl e \<longrightarrow>
      scrape_body L W url = Inl e) \<and>
   (http_get W url = Inr response_text \<and> bs_parse L response_text = Inr soup \<and>
    find_content soup = None \<longrightarrow>
      scrape_blog_post L W url = ([LogScraping url, LogNoContent url], None)) \<and>
   ((\<forall>path. fs_write W path) \<longrightarrow>
      (\<exists>st'. process_urls L W urls st = Inr st' \<and>
         scraped_count st'
           = scraped_count st
             + int (length (List.map_filter (\<lambda>url. snd (scrape_blog_post L W url)) urls)) \<and>
         map snd (written st')
           = map snd (written st) @ List.map_filter (\<lambda>url. snd (scrape_blog_post L W url)) urls)) \<and>
   (main L W = Some (Inr fin) \<longrightarrow>
      last (stdout fin) = LogComplete (int (length (written fin))))"
proof (intro conjI impI)
  show "scrape_blog_post L W url = ([LogScraping url, LogScrapeError url e], None)"
    if "scrape_body L W url = Inl e"
    using that by (simp add: scrape_blog_post_def)
  show "scrape_body L W url = Inl e" if "http_get W url = Inl e"
    using that by (simp add: scrape_body_def bind_exn_def)
  show "scrape_body L W url = Inl e"
    if "http_get W url = Inr response_text \<and> bs_parse L response_text = Inl e"
    using that by (simp add: scrape_body_def bind_exn_def)
  show "scrape_blog_post L W url = ([LogScraping url, LogNoContent url], None)"
    if "http_get W url = Inr response_text \<and> bs_parse L response_text = Inr soup \<and>
        find_content soup = None"
    using that by (simp add: scrape_blog_post_def scrape_body_def bind_exn_def Let_def)
  show "\<exists>st'. process_urls L W urls st = Inr st' \<and>
         scraped_count st'
           = scraped_count st
             + int (length (List.map_filter (\<lambda>url. snd (scrape_blog_post L W url)) urls)) \<and>
         map snd (written st')
           = map snd (written st) @ List.map_filter (\<lambda>url. snd (scrape_blog_post L W url)) urls"
    if "\<forall>path. fs_write W path"
    using that by (rule process_urls_continues)
  show "last (stdout fin) = LogComplete (int (length (written fin)))"
    if "main L W = Some (Inr fin)"
    using that by (rule main_reports_count)
qed

lemma ex_site_writes: "\<forall>path. fs_write ex_site path"
  by (simp add: ex_site_def ex_world_def)

theorem extraction_failures_are_isolated_witness:
  "http_get ex_site (u ''https://postgrespro.com/blog/missing'') = Inl HTTPStatusError \<and>
   scrape_blog_post ex_site_lib ex_site (u ''https://postgrespro.com/blog/missing'')
     = ([LogScraping (u ''https://postgrespro.com/blog/missing''),
         LogScrapeError (u ''https://postgrespro.com/blog/missing'') HTTPStatusError], None) \<and>
   http_get ex_site (u ''https://postgrespro.com/blog/broken'') = Inr (u ''<<<'') \<and>
   bs_parse ex_site_lib (u ''<<<'') = Inl ParserError \<and>
   scrape_blog_post ex_site_lib ex_site (u ''https://postgrespro.com/blog/broken'')
     = ([LogScraping (u ''https://postgrespro.com/blog/broken''),
         LogScrapeError (u ''https://postgrespro.com/blog/broken'') ParserError], None) \<and>
   http_get ex_site (u ''https://postgrespro.com/blog/bare'') = Inr (render ex_bare_doc) \<and>
   bs_parse ex_site_lib (render ex_bare_doc) = Inr ex_bare_doc \<and>
   find_content ex_bare_doc = None \<and>
   scrape_blog_post ex_site_lib ex_site (u ''https://postgrespro.com/blog/bare'')
     = ([LogScraping (u ''https://postgrespro.com/blog/bare''),
         LogNoContent (u ''https://postgrespro.com/blog/bare'')], None) \<and>
   (\<forall>path. fs_write ex_site path) \<and>
   scraped_count (final_state (process_urls ex_site_lib ex_site
     [u ''https://postgrespro.com/blog/missing'', u ''https://postgrespro.com/blog/broken'',
      u ''https://postgrespro.com/blog/bare'', u ''https://postgrespro.com/blog/hello'']
     \<lparr>stdout = [], written = [], scraped_count = 0\<rparr>)) = 1 \<and>
   map snd (written (final_state (process_urls ex_site_lib ex_site
     [u ''https://postgrespro.com/blog/missing'', u ''https://postgrespro.com/blog/broken'',
      u ''https://postgrespro.com/blog/bare'', u ''https://postgrespro.com/blog/hello'']
     \<lparr>stdout = [], written = [], scraped_count = 0\<rparr>))) = [ex_hello_post] \<and>
   completed (main ex_site_lib ex_site) \<and>
   last (run_stdout (main ex_site_lib ex_site)) = LogComplete 1"
proof -
  let ?missing = "u ''https://postgrespro.com/blog/missing''"
  let ?broken = "u ''https://postgrespro.com/blog/broken''"
  let ?bare = "u ''https://postgrespro.com/blog/bare''"
  let ?urls = "[?missing, ?broken, ?bare, u ''https://postgrespro.com/blog/hello'']"
  let ?st = "\<lparr>stdout = [], written = [], scraped_count = 0\<rparr>"
  note T = extraction_failures_are_isolated
  have g1: "http_get ex_site ?missing = Inl HTTPStatusError" by code_simp
  have g2: "http_get ex_site ?broken = Inr (u ''<<<'')" by code_simp
  have g3: "bs_parse ex_site_lib (u ''<<<'') = Inl ParserError" by code_simp
  have g4: "http_get ex_site ?bare = Inr (render ex_bare_doc)" by code_simp
  have g5: "bs_parse ex_site_lib (render ex_bare_doc) = Inr ex_bare_doc" by code_simp
  have g6: "find_content ex_bare_doc = None" by code_simp
  have mf: "List.map_filter (\<lambda>url. snd (scrape_blog_post ex_site_lib ex_site url)) ?urls
            = [ex_hello_post]" by code_simp
  from T[where L = ex_site_lib and W = ex_site and url = ?missing and e = HTTPStatusError] g1
  have s1: "scrape_blog_post ex_site_lib ex_site ?missing
     = ([LogScraping ?missing, LogScrapeError ?missing HTTPStatusError], None)" by blast
  from T[where L = ex_site_lib and W = ex_site and url = ?broken and e = ParserError
      and response_text = "u ''<<<''"] g2 g3
  have s2: "scrape_blog_post ex_site_lib ex_site ?broken
     = ([LogScraping ?broken, LogScrapeError ?broken ParserError], None)" by blast
  from T[where L = ex_site_lib and W = ex_site and url = ?bare
      and response_text = "render ex_bare_doc" and soup = ex_bare_doc] g4 g5 g6
  have s3: "scrape_blog_post ex_site_lib ex_site ?bare
     = ([LogScraping ?bare, LogNoContent ?bare], None)" by blast
  from T[where W = ex_site and L = ex_site_lib and urls = ?urls and st = ?st] ex_site_writes
  obtain st' where p: "process_urls ex_site_lib ex_site ?urls ?st = Inr st'"
    and c: "scraped_count st' = scraped_count ?st
        + int (length (List.map_filter (\<lambda>url. snd (scrape_blog_post ex_site_lib ex_site url)) ?urls))"
    and w: "map snd (written st') = map snd (written ?st)
        @ List.map_filter (\<lambda>url. snd (scrape_blog_post ex_site_lib ex_site url)) ?urls"
    by blast
  from c have c': "scraped_count (final_state (process_urls ex_site_lib ex_site ?urls ?st)) = 1"
    unfolding p mf by simp
  from w have w': "map snd (written (final_state (process_urls ex_site_lib ex_site ?urls ?st)))
      = [ex_hello_post]"
    unfolding p mf by simp
  from ex_main_completed obtain fin where m: "main ex_site_lib ex_site = Some (Inr fin)"
    by (rule completedE)
  from ex_main_written m have "length (written fin) = 1" by (simp add: run_written_def)
  with T[where L = ex_site_lib and W = ex_site and fin = fin] m
  have l: "last (run_stdout (main ex_site_lib ex_site)) = LogComplete 1"
    by (simp add: run_stdout_def)
  from g1 s1 g2 g3 s2 g4 g5 g6 s3 ex_site_writes c' w' ex_main_completed l
  show ?thesis by blast
qed

lemma strip_chars_all: "\<forall>c\<in>set s. C c \<Longrightarrow> strip_chars C s = []"
proof -
  assume "\<forall>c\<in>set s. C c"
  then have "dropWhile C s = []" by (induction s) auto
  then show ?thesis by (simp only: strip_chars_def rev.simps dropWhile.simps)
qed

lemma generate_slug_empty:
  assumes "\<forall>c\<in>set (str_lower U title).
             \<not> is_az c \<and> \<not> is_09 c \<and> c \<notin> {287, 252, 351, 305, 246, 231}"
  shows "generate_slug U title = []"
proof -
  let ?s = "str_lower U title"
  let ?K = "\<lambda>c. is_az c \<or> is_09 c \<or> is_space c \<or> c = hyphen"
  have r: "replace_char a b ?s = ?s" if "a \<in> {287, 252, 351, 305, 246, 231}" for a b
    using that assms by (intro replace_char_absent) blast
  have f: "\<forall>c\<in>set (filter ?K ?s). is_space c \<or> c = hyphen" using assms by auto
  have 1: "c = hyphen" if "c \<in> set (re_collapse is_space (filter ?K ?s))" for c
  proof -
    from set_re_collapse[OF that]
    have "c = hyphen \<or> (c \<in> set (filter ?K ?s) \<and> \<not> is_space c)" .
    with f show ?thesis by blast
  qed
  have "c = hyphen"
    if "c \<in> set (re_collapse (\<lambda>c. c = hyphen) (re_collapse is_space (filter ?K ?s)))" for c
  proof -
    from set_re_collapse[OF that] 1 show ?thesis by blast
  qed
  then have "\<forall>c\<in>set (re_collapse (\<lambda>c. c = hyphen) (re_collapse is_space (filter ?K ?s))).
               c = hyphen"
    by blast
  then have "strip_chars (\<lambda>c. c = hyphen)
               (re_collapse (\<lambda>c. c = hyphen) (re_collapse is_space (filter ?K ?s))) = []"
    by (rule strip_chars_all)
  then show ?thesis by (simp add: generate_slug_def Let_def r)
qed

text \<open>
  Claim C3. A title whose lower-case form has none of \<^verbatim>\<open>a-z\<close>, \<^verbatim>\<open>0-9\<close> and the
  six Turkish letters gives the empty slug. So at a page whose heading is "!!!" the slug
  of the record is the empty string, and the record is written to the file
  \<^verbatim>\<open>.json\<close>.
\<close>

theorem empty_slug_for_title_without_alphanumerics:
  "((\<forall>c\<in>set (str_lower U title).
       \<not> is_az c \<and> \<not> is_09 c \<and> c \<notin> {287, 252, 351, 305, 246, 231}) \<longrightarrow>
      generate_slug U title = []) \<and>
   scraped_field ''title''
     (scrape_blog_post (ex_page_lib [] ex_bang_article ex_bang_article)
        (ex_page_world ex_url [] ex_bang_article) ex_url) = Some (JStr (u ''!!!'')) \<and>
   scraped_field ''slug''
     (scrape_blog_post (ex_page_lib [] ex_bang_article ex_bang_article)
        (ex_page_world ex_url [] ex_bang_article) ex_url) = Some (JStr []) \<and>
   map fst (written (final_state
     (process_urls (ex_page_lib [] ex_bang_article ex_bang_article)
        (ex_page_world ex_url [] ex_bang_article) [ex_url]
        \<lparr>stdout = [], written = [], scraped_count = 0\<rparr>)))
     = [u ''Postgrespro.tr/wwwroot/content/blog/.json'']"
proof (intro conjI impI)
  show "generate_slug U title = []"
    if "\<forall>c\<in>set (str_lower U title).
          \<not> is_az c \<and> \<not> is_09 c \<and> c \<notin> {287, 252, 351, 305, 246, 231}"
    using that by (rule generate_slug_empty)
  show "scraped_field ''title''
     (scrape_blog_post (ex_page_lib [] ex_bang_article ex_bang_article)
        (ex_page_world ex_url [] ex_bang_article) ex_url) = Some (JStr (u ''!!!''))"
    by code_simp
  show "scraped_field ''slug''
     (scrape_blog_post (ex_page_lib [] ex_bang_article ex_bang_article)
        (ex_page_world ex_url [] ex_bang_article) ex_url) = Some (JStr [])"
    by code_simp
  show "map fst (written (final_state
     (process_urls (ex_page_lib [] ex_bang_article ex_bang_article)
        (ex_page_world ex_url [] ex_bang_article) [ex_url]
        \<lparr>stdout = [], written = [], scraped_count = 0\<rparr>)))
     = [u ''Postgrespro.tr/wwwroot/content/blog/.json'']"
    by code_simp
qed

theorem empty_slug_for_title_without_alphanumerics_witness:
  "str_lower latin_db (u ''!!!'') = [33, 33, 33] \<and>
   generate_slug latin_db (u ''!!!'') = [] \<and>
   map (\<lambda>(path, post). basename path) (written (final_state
     (process_urls (ex_page_lib [] ex_bang_article ex_bang_article)
        (ex_page_world ex_url [] ex_bang_article) [ex_url]
        \<lparr>stdout = [], written = [], scraped_count = 0\<rparr>)))
     = [u ''.json'']"
proof -
  note T = empty_slug_for_title_without_alphanumerics[where U = latin_db and title = "u ''!!!''"]
  have h: "\<forall>c\<in>set (str_lower latin_db (u ''!!!'')).
      \<not> is_az c \<and> \<not> is_09 c \<and> c \<notin> {287, 252, 351, 305, 246, 231}"
    by (simp add: latin_db_def latin_lower_cp_def u_def is_az_def is_09_def)
  with T have g: "generate_slug latin_db (u ''!!!'') = []" by blast
  have b: "basename (u ''Postgrespro.tr/wwwroot/content/blog/.json'') = u ''.json''"
    by code_simp
  from T
  have w: "map fst (written (final_state
     (process_urls (ex_page_lib [] ex_bang_article ex_bang_article)
        (ex_page_world ex_url [] ex_bang_article) [ex_url]
        \<lparr>stdout = [], written = [], scraped_count = 0\<rparr>)))
     = [u ''Postgrespro.tr/wwwroot/content/blog/.json'']" by blast
  have "map (\<lambda>(path, post). basename path) (written (final_state
     (process_urls (ex_page_lib [] ex_bang_article ex_bang_article)
        (ex_page_world ex_url [] ex_bang_article) [ex_url]
        \<lparr>stdout = [], written = [], scraped_count = 0\<rparr>)))
     = map basename (map fst (written (final_state
     (process_urls (ex_page_lib [] ex_bang_article ex_bang_article)
        (ex_page_world ex_url [] ex_bang_article) [ex_url]
        \<lparr>stdout = [], written = [], scraped_count = 0\<rparr>))))"
    by (simp add: case_prod_unfold comp_def)
  also have "\<dots> = [u ''.json'']" unfolding w by (simp add: b)
  finally show ?thesis using g by (simp add: latin_db_def latin_lower_cp_def u_def)
qed

lemma main_written_images:
  assumes "main L W = Some res" and "(path, post) \<in> set (written (final_state res))"
  shows "\<exists>url content_html images.
           extract_images L content_html url = Inr images \<and>
           map_of post ''images'' = Some (JList (map JStr images))"
proof -
  from main_written[OF assms] obtain url out where
    "scrape_blog_post L W url = (out, Some post)" by blast
  from scrape_blog_post_SomeD[OF this] scrape_body_SomeD[of L W url post]
  obtain t s d a c g e h r i where "extract_images L h url = Inr i"
    and "post = make_post t s d a c g url e h r i" by blast
  then show ?thesis by (auto simp: make_post_images)
qed

text \<open>
  Claim C1. The \<open>images\<close> of every record that \<open>main\<close> saves are the URLs that
  \<open>extract_images\<close> returned, as they are; \<open>main\<close> never calls \<open>download_image\<close>. On
  the example site the saved record lists the image by its absolute URL, although
  \<open>download_image\<close> on that URL would succeed and give the site-relative path.
\<close>

theorem saved_images_are_not_downloaded:
  "(main L W = Some res \<and> (path, post) \<in> set (written (final_state res)) \<longrightarrow>
      (\<exists>url content_html images.
         extract_images L content_html url = Inr images \<and>
         map_of post ''images'' = Some (JList (map JStr images)))) \<and>
   map (\<lambda>(path, post). (path, map_of post ''images'')) (run_written (main ex_site_lib ex_site))
     = [(u ''Postgrespro.tr/wwwroot/content/blog/hello.json'',
         Some (JList [JStr (u ''https://postgrespro.com/img/a.png'')]))] \<and>
   download_image ex_site_lib ex_site (u ''https://postgrespro.com/img/a.png'') (u ''hello'')
     = ([], [(u ''Postgrespro.tr/wwwroot/blog/hello/apng.png'', [137, 80, 78, 71])],
        Some (u ''/blog/hello/apng.png''))"
proof (intro conjI impI)
  show "\<exists>url content_html images.
         extract_images L content_html url = Inr images \<and>
         map_of post ''images'' = Some (JList (map JStr images))"
    if "main L W = Some res \<and> (path, post) \<in> set (written (final_state res))"
    using that main_written_images by blast
  show "map (\<lambda>(path, post). (path, map_of post ''images'')) (run_written (main ex_site_lib ex_site))
     = [(u ''Postgrespro.tr/wwwroot/content/blog/hello.json'',
         Some (JList [JStr (u ''https://postgrespro.com/img/a.png'')]))]"
    by (simp add: ex_main_written ex_hello_post_def make_post_images)
  show "download_image ex_site_lib ex_site (u ''https://postgrespro.com/img/a.png'') (u ''hello'')
     = ([], [(u ''Postgrespro.tr/wwwroot/blog/hello/apng.png'', [137, 80, 78, 71])],
        Some (u ''/blog/hello/apng.png''))"
    by code_simp
qed

theorem saved_images_are_not_downloaded_witness:
  "(u ''Postgrespro.tr/wwwroot/content/blog/hello.json'', ex_hello_post)
     \<in> set (run_written (main ex_site_lib ex_site)) \<and>
   extract_images ex_site_lib (render (ex_fragment ex_hello_article))
     (u ''https://postgrespro.com/blog/hello'') = Inr [u ''https://postgrespro.com/img/a.png''] \<and>
   map (\<lambda>(path, post). map_of post ''images'') (run_written (main ex_site_lib ex_site))
     \<noteq> [map_option (\<lambda>p. JList [JStr p])
          (snd (snd (download_image ex_site_lib ex_site
                       (u ''https://postgrespro.com/img/a.png'') (u ''hello''))))]"
proof -
  note T = saved_images_are_not_downloaded[where L = ex_site_lib and W = ex_site
      and path = "u ''Postgrespro.tr/wwwroot/content/blog/hello.json''" and post = ex_hello_post]
  have n: "u ''https://postgrespro.com/img/a.png'' \<noteq> u ''/blog/hello/apng.png''"
    by (simp add: u_def)
  have x: "extract_images ex_site_lib (render (ex_fragment ex_hello_article))
     (u ''https://postgrespro.com/blog/hello'') = Inr [u ''https://postgrespro.com/img/a.png'']"
    by code_simp
  from ex_main_completed obtain st where m: "main ex_site_lib ex_site = Some (Inr st)"
    by (rule completedE)
  with ex_main_written
  have i: "(u ''Postgrespro.tr/wwwroot/content/blog/hello.json'', ex_hello_post)
             \<in> set (written (final_state (Inr st)))"
    by (simp add: run_written_def)
  from T[where res = "Inr st"] m i
  have "\<exists>url content_html images.
         extract_images ex_site_lib content_html url = Inr images \<and>
         map_of ex_hello_post ''images'' = Some (JList (map JStr images))" by blast
  from T
  have w: "map (\<lambda>(path, post). (path, map_of post ''images'')) (run_written (main ex_site_lib ex_site))
       = [(u ''Postgrespro.tr/wwwroot/content/blog/hello.json'',
           Some (JList [JStr (u ''https://postgrespro.com/img/a.png'')]))]"
    and d: "download_image ex_site_lib ex_site (u ''https://postgrespro.com/img/a.png'') (u ''hello'')
       = ([], [(u ''Postgrespro.tr/wwwroot/blog/hello/apng.png'', [137, 80, 78, 71])],
          Some (u ''/blog/hello/apng.png''))"
    by blast+
  have "map (\<lambda>(path, post). map_of post ''images'') (run_written (main ex_site_lib ex_site))
      = map snd (map (\<lambda>(path, post). (path, map_of post ''images''))
                   (run_written (main ex_site_lib ex_site)))"
    by (simp add: case_prod_unfold comp_def)
  also have "\<dots> = [Some (JList [JStr (u ''https://postgrespro.com/img/a.png'')])]"
    unfolding w by simp
  finally have "map (\<lambda>(path, post). map_of post ''images'') (run_written (main ex_site_lib ex_site))
     \<noteq> [map_option (\<lambda>p. JList [JStr p])
          (snd (snd (download_image ex_site_lib ex_site
                       (u ''https://postgrespro.com/img/a.png'') (u ''hello''))))]"
    using n by (simp add: d)
  with x i m show ?thesis by (simp add: run_written_def)
qed

section \<open>Claims about the listing crawler\<close>

lemma add_links_no_new:
  "list_all (no_new_url L b links) pl \<Longrightarrow> \<exists>x. add_links L b pl links False = (links, False, x)"
proof (induction pl)
  case Nil
  then show ?case by simp
next
  case (Cons link pl)
  then have n: "no_new_url L b links link" and r: "\<exists>x. add_links L b pl links False = (links, False, x)"
    by simp_all
  let ?href = "case get_attr link (u ''href'') of Some v \<Rightarrow> v | None \<Rightarrow> []"
  show ?case
  proof (cases "?href \<noteq> [] \<and> contains ?href (u ''/blog/'')")
    case False
    with r show ?thesis by (auto simp: Let_def)
  next
    case True
    show ?thesis
    proof (cases "urljoin L b ?href")
      case (Inl e)
      with True show ?thesis by (auto simp: Let_def)
    next
      case (Inr full_url)
      with n True have "full_url \<in> set links" by (auto simp: no_new_url_def Let_def)
      with True Inr r show ?thesis by (auto simp: Let_def)
    qed
  qed
qed

lemma page_stops_halts:
  assumes "page_stops L W b p links"
  shows "snd (snd (crawl_page L W b p links)) = False"
proof (cases "bind_exn (http_get W (page_url b p)) (bs_parse L)")
  case (Inl e)
  then show ?thesis by (simp add: crawl_page_def)
next
  case (Inr soup)
  obtain l f x where a: "add_links L b (post_links_of soup) links False = (l, f, x)"
    by (cases "add_links L b (post_links_of soup) links False") auto
  from assms Inr consider "next_link_of soup = None"
    | "list_all (no_new_url L b links) (post_links_of soup)"
    by (auto simp: page_stops_def)
  then show ?thesis
  proof cases
    case 1
    with Inr a show ?thesis by (cases x) (simp_all add: crawl_page_def Let_def)
  next
    case 2
    from add_links_no_new[OF this] a have "f = False" by auto
    with Inr a show ?thesis by (cases x) (simp_all add: crawl_page_def Let_def)
  qed
qed

lemma links_from_Suc:
  "links_from L W b (Suc k) p links
     = fst (snd (crawl_page L W b (p + k) (links_from L W b k p links)))"
  by (induction k arbitrary: p links) simp_all

lemma links_after_from: "links_after L W b n = links_from L W b n 1 []"
proof (induction n)
  case 0
  then show ?case by simp
next
  case (Suc n)
  have "links_after L W b (Suc n) = fst (snd (crawl_page L W b (1 + n) (links_from L W b n 1 [])))"
    using Suc by simp
  also have "\<dots> = links_from L W b (Suc n) 1 []" by (simp only: links_from_Suc)
  finally show ?case .
qed

lemma crawl_from_halts:
  "snd (snd (crawl_page L W b (p + k) (links_from L W b k p links))) = False \<Longrightarrow>
     \<exists>r. crawl_from L W b p out links = Some r"
proof (induction k arbitrary: p out links)
  case 0
  obtain pr l g where c: "crawl_page L W b p links = (pr, l, g)"
    by (cases "crawl_page L W b p links") auto
  with 0 have "g = False" by simp
  with c show ?case by (subst crawl_from.simps) simp
next
  case (Suc k)
  obtain pr l g where c: "crawl_page L W b p links = (pr, l, g)"
    by (cases "crawl_page L W b p links") auto
  show ?case
  proof (cases g)
    case False
    with c show ?thesis by (subst crawl_from.simps) simp
  next
    case True
    from Suc.prems c
    have "snd (snd (crawl_page L W b (Suc p + k) (links_from L W b k (Suc p) l))) = False"
      by simp
    from Suc.IH[OF this, of "out @ pr"] obtain r where
      "crawl_from L W b (Suc p) (out @ pr) l = Some r" by blast
    with c True show ?thesis by (subst crawl_from.simps) simp
  qed
qed

text \<open>
  Claim C8. If some listing page, met with the links of the pages before it, cannot be
  fetched, has no next-page marker or brings no new URL, then \<open>find_all_blog_links\<close>
  returns, whatever the later pages are. And a page that cannot be fetched ends the loop
  there, with the links collected so far.
\<close>

theorem crawler_terminates:
  "(page_stops L W base_url (Suc n) (links_after L W base_url n) \<longrightarrow>
      (\<exists>out links. find_all_blog_links L W base_url = Some (out, links))) \<and>
   (http_get W (page_url base_url page) = Inl e \<longrightarrow>
      crawl_from L W base_url page out links
        = Some (out @ [LogFetchingPage page, LogPageError page e], links))"
proof (intro conjI impI)
  assume "page_stops L W base_url (Suc n) (links_after L W base_url n)"
  then have "snd (snd (crawl_page L W base_url (1 + n) (links_from L W base_url n 1 []))) = False"
    using page_stops_halts[of L W base_url "Suc n"] by (simp add: links_after_from)
  from crawl_from_halts[OF this, of "[]"]
  show "\<exists>out links. find_all_blog_links L W base_url = Some (out, links)"
    by (auto simp: find_all_blog_links_def)
next
  assume "http_get W (page_url base_url page) = Inl e"
  then have "crawl_page L W base_url page links
               = ([LogFetchingPage page, LogPageError page e], links, False)"
    by (simp add: crawl_page_def bind_exn_def)
  then show "crawl_from L W base_url page out links
        = Some (out @ [LogFetchingPage page, LogPageError page e], links)"
    by (subst crawl_from.simps) simp
qed

theorem crawler_terminates_witness:
  "page_stops ex_site_lib ex_site BASE_URL (Suc 1) (links_after ex_site_lib ex_site BASE_URL 1) \<and>
   http_get ex_site (page_url BASE_URL 3) = Inr (render ex_listing) \<and>
   find_all_blog_links ex_site_lib ex_site BASE_URL
     = Some ([LogFetchingPage 1, LogFetchingPage 2],
             [u ''https://postgrespro.com/blog/missing'', u ''https://postgrespro.com/blog/broken'',
              u ''https://postgrespro.com/blog/bare'', u ''https://postgrespro.com/blog/hello'']) \<and>
   http_get (ex_world []) (page_url BASE_URL 1) = Inl HTTPStatusError \<and>
   crawl_from (ex_lib []) (ex_world []) BASE_URL 1 [] []
     = Some ([LogFetchingPage 1, LogPageError 1 HTTPStatusError], [])"
proof -
  have s: "page_stops ex_site_lib ex_site BASE_URL (Suc 1) (links_after ex_site_lib ex_site BASE_URL 1)"
    by code_simp
  have k: "http_get ex_site (page_url BASE_URL 3) = Inr (render ex_listing)" by code_simp
  have f: "find_all_blog_links ex_site_lib ex_site BASE_URL
     = Some ([LogFetchingPage 1, LogFetchingPage 2],
             [u ''https://postgrespro.com/blog/missing'', u ''https://postgrespro.com/blog/broken'',
              u ''https://postgrespro.com/blog/bare'', u ''https://postgrespro.com/blog/hello''])"
    by code_simp
  have g: "http_get (ex_world []) (page_url BASE_URL 1) = Inl HTTPStatusError" by code_simp
  from crawler_terminates[where L = ex_site_lib and W = ex_site and base_url = BASE_URL and n = 1] s
  have "\<exists>out links. find_all_blog_links ex_site_lib ex_site BASE_URL = Some (out, links)" by blast
  moreover
  from crawler_terminates[where W = "ex_world []" and base_url = BASE_URL and page = 1
      and e = HTTPStatusError and L = "ex_lib []" and out = "[]" and links = "[]"] g
  have "crawl_from (ex_lib []) (ex_world []) BASE_URL 1 [] []
     = Some ([LogFetchingPage 1, LogPageError 1 HTTPStatusError], [])" by simp
  ultimately show ?thesis using s k f g by blast
qed

end
